theory Spec2Isabelle
  imports Main
begin

section \<open>The indentation delta (class \<open>Indent\<close>)\<close>

text \<open>
  \<open>Indent\<close> is a Python \<open>enum.Enum\<close> with the three members \<open>dedent\<close>, \<open>nothing\<close> and
  \<open>indent\<close>. It is a plain \<open>Enum\<close>, not an \<open>IntEnum\<close>: a member is never an \<open>int\<close>.
\<close>

datatype Indent = Dedent | Nothing | Indent

text \<open>\<open>Indent.from_int\<close>: three branches on the sign of the argument, none of which raises.\<close>

definition from_int :: "int \<Rightarrow> Indent" where
  "from_int val = (if val > 0 then Indent else if val < 0 then Dedent else Nothing)"

fun to_int :: "Indent \<Rightarrow> int" where
  "to_int Indent = 1"
| "to_int Dedent = - 1"
| "to_int Nothing = 0"

text \<open>
  \<open>Indent.__add__\<close>. Both operands have type \<open>Indent\<close> here, so the test
  \<open>type(other) is Indent\<close> holds and the \<open>NotImplemented\<close> branch is not reached.
\<close>

definition Indent_add :: "Indent \<Rightarrow> Indent \<Rightarrow> Indent" where
  "Indent_add self other = from_int (to_int self + to_int other)"

section \<open>Lines and documents (classes \<open>_HtmlLine\<close> and \<open>Html\<close>)\<close>

datatype error = WriteOutError | RuntimeError

record HtmlLine =
  line :: string
  indent :: Indent

text \<open>
  An \<open>Html\<close> object holds the deque \<open>_inner_html\<close> of committed lines and the string
  \<open>_buffer\<close> of the line being written. This record is the document as a value; the
  object store with line objects held by reference follows in a later section.
\<close>

record Html =
  inner_html :: "HtmlLine list"
  buffer :: string

text \<open>\<open>Html.__init__\<close>: \<open>content\<close> is \<open>None\<close>, one string, or a sequence of strings.\<close>

datatype init_content = NoContent | OneLine string | Lines "string list"

definition Html_init :: "init_content \<Rightarrow> Html" where
  "Html_init content =
     \<lparr>inner_html =
        (case content of
           NoContent \<Rightarrow> []
         | OneLine c \<Rightarrow> [\<lparr>line = c, indent = Nothing\<rparr>]
         | Lines cs \<Rightarrow> map (\<lambda>l. \<lparr>line = l, indent = Nothing\<rparr>) cs),
      buffer = ''''\<rparr>"

text \<open>
  \<open>Html.newline\<close>. The parameter \<open>indent\<close> is \<open>Union[Indent, int]\<close>; an \<open>int\<close> goes through
  \<open>from_int\<close> first. The merge branch updates the \<open>indent\<close> field of the last committed
  line (index \<open>-1\<close>), which exists because the deque is not empty there.
\<close>

datatype indent_arg = OfIndent Indent | OfInt int

definition as_indent :: "indent_arg \<Rightarrow> Indent" where
  "as_indent a = (case a of OfInt n \<Rightarrow> from_int n | OfIndent d \<Rightarrow> d)"

definition newline :: "bool \<Rightarrow> indent_arg \<Rightarrow> Html \<Rightarrow> Html" where
  "newline force ind self =
     (let d = as_indent ind; n = length (inner_html self) in
      if \<not> force \<and> length (buffer self) = 0 \<and> n > 0
      then self\<lparr>inner_html :=
             (inner_html self)[n - 1 :=
                (inner_html self ! (n - 1))
                  \<lparr>indent := Indent_add (indent (inner_html self ! (n - 1))) d\<rparr>]\<rparr>
      else self\<lparr>inner_html := inner_html self @ [\<lparr>line = buffer self, indent = d\<rparr>],
                buffer := ''''\<rparr>)"

text \<open>
  \<open>Html.__iadd__\<close>: the argument is a string or another document. The loop over
  \<open>other._inner_html\<close> is \<open>iadd_loop\<close>. The \<open>Fragment\<close> branch takes \<open>other\<close> as a value that
  the call does not change; it stands for the code only when \<open>self\<close> and \<open>other\<close> are two
  objects that share no line object. On one and the same object the code iterates over
  the deque it appends to: that case is \<open>iadd_s\<close> on the object store below, and the
  theorems on appending a document are stated there.
\<close>

datatype content = Text string | Fragment Html

fun iadd_loop :: "HtmlLine list \<Rightarrow> Html \<Rightarrow> Html" where
  "iadd_loop [] self = self"
| "iadd_loop (l # ls) self =
     iadd_loop ls (newline False (OfIndent (indent l)) (self\<lparr>buffer := line l\<rparr>))"

definition iadd :: "Html \<Rightarrow> content \<Rightarrow> Html" where
  "iadd self other =
     (case other of
        Text s \<Rightarrow> self\<lparr>buffer := buffer self @ s\<rparr>
      | Fragment h \<Rightarrow>
          (iadd_loop (inner_html h) (newline False (OfIndent Nothing) self))
            \<lparr>buffer := buffer h\<rparr>)"

text \<open>
  \<open>Html.to_raw_html\<close>. \<open>str_mul\<close> is Python's \<open>str * int\<close>, which is the empty string
  for a count below one. The loop carries \<open>return_str\<close> and the running level \<open>indent\<close>;
  the level is tested after the line has been emitted and its delta added.
\<close>

definition str_mul :: "string \<Rightarrow> int \<Rightarrow> string" where
  "str_mul s n = concat (replicate (nat n) s)"

fun to_raw_html_loop :: "int \<Rightarrow> HtmlLine list \<Rightarrow> string \<Rightarrow> int \<Rightarrow> error + string \<times> int" where
  "to_raw_html_loop indent_size [] return_str ind = Inr (return_str, ind)"
| "to_raw_html_loop indent_size (html_line # rest) return_str ind =
     (let return_str' =
            return_str @ str_mul (str_mul '' '' indent_size) ind @ line html_line @ ''\<newline>'';
          ind' = ind + to_int (indent html_line)
      in if ind' < 0 then Inl WriteOutError
         else to_raw_html_loop indent_size rest return_str' ind')"

definition to_raw_html :: "int \<Rightarrow> Html \<Rightarrow> error + string" where
  "to_raw_html indent_size self =
     (case to_raw_html_loop indent_size (inner_html self) '''' 0 of
        Inl e \<Rightarrow> Inl e
      | Inr (return_str, ind) \<Rightarrow>
          Inr (return_str @ str_mul '' '' indent_size @ buffer self @ ''\<newline>''))"

section \<open>Tag scopes\<close>

text \<open>
  \<open>Html._get_open_and_close_tags\<close>. \<open>join\<close> is \<open>str.join\<close>; a \<open>Mapping\<close> is read through
  \<open>items()\<close> only, so it is the list of its key-value pairs in iteration order.
\<close>

fun join :: "string \<Rightarrow> string list \<Rightarrow> string" where
  "join sep [] = ''''"
| "join sep [x] = x"
| "join sep (x # y # ys) = x @ sep @ join sep (y # ys)"

definition get_open_and_close_tags ::
  "string \<Rightarrow> string option \<Rightarrow> string list option \<Rightarrow> (string \<times> string) list option \<Rightarrow>
   (string \<times> string) list option \<Rightarrow> string \<times> string" where
  \<open>get_open_and_close_tags name tag_id classes styles attributes =
     (let c0 = [name];
          c1 = (case tag_id of None \<Rightarrow> c0 | Some i \<Rightarrow> c0 @ [''id='' @ i]);
          c2 = (case classes of None \<Rightarrow> c1
                | Some cs \<Rightarrow> c1 @ [''class="'' @ join '' '' cs @ ''"'']);
          c3 = (case styles of None \<Rightarrow> c2
                | Some ss \<Rightarrow>
                    c2 @ [''style="'' @ join '' '' (map (\<lambda>(k, v). k @ '': '' @ v @ '';'') ss)
                          @ ''"'']);
          c4 = (case attributes of None \<Rightarrow> c3
                | Some ats \<Rightarrow> c3 @ map (\<lambda>(k, v). k @ ''="'' @ v @ ''"'') ats)
      in (''<'' @ join '' '' c4 @ ''>'', ''</'' @ name @ ''>''))\<close>

text \<open>
  \<open>Html.tag\<close> is a generator-based context manager. The body of the \<open>with\<close> block works on
  the same document and either returns or raises; it is a function from the document at
  the \<open>yield\<close> to its outcome and the document it leaves. The \<open>finally\<close> block runs on
  both outcomes, and a raised exception propagates after it.
\<close>

datatype 'x outcome = Returned | Raised 'x

record tag_args =
  name :: string
  tag_id :: "string option"
  classes :: "string list option"
  styles :: "(string \<times> string) list option"
  attributes :: "(string \<times> string) list option"

text \<open>The call of \<open>_get_open_and_close_tags\<close> on the arguments of \<open>tag\<close>.\<close>

definition tags_of :: "tag_args \<Rightarrow> string \<times> string" where
  "tags_of a = get_open_and_close_tags (name a) (tag_id a) (classes a) (styles a) (attributes a)"

definition tag :: "tag_args \<Rightarrow> (Html \<Rightarrow> 'x outcome \<times> Html) \<Rightarrow> Html \<Rightarrow> 'x outcome \<times> Html" where
  "tag a body self =
     (case tags_of a of
        (open_tag, close_tag) \<Rightarrow>
          (let s1 = newline False (OfIndent Nothing) self;
               s2 = iadd s1 (Text open_tag);
               s3 = newline False (OfIndent Indent) s2
           in case body s3 of
                (Returned, s4) \<Rightarrow>
                  (let s5 = newline False (OfIndent Dedent) s4;
                       s6 = iadd s5 (Text close_tag)
                   in (Returned, newline False (OfIndent Nothing) s6))
              | (Raised e, s4) \<Rightarrow>
                  (let s5 = newline False (OfIndent Dedent) s4;
                       s6 = iadd s5 (Text close_tag)
                   in (Raised e, newline False (OfIndent Nothing) s6))))"

text \<open>Three bodies of a \<open>with\<close> block: \<open>pass\<close>, \<open>h += t\<close>, and \<open>h += t\<close> followed by a raise.\<close>

definition pass_body :: "Html \<Rightarrow> 'x outcome \<times> Html" where
  "pass_body s = (Returned, s)"

definition write_body :: "string \<Rightarrow> Html \<Rightarrow> 'x outcome \<times> Html" where
  "write_body t s = (Returned, iadd s (Text t))"

definition write_raise_body :: "string \<Rightarrow> 'x \<Rightarrow> Html \<Rightarrow> 'x outcome \<times> Html" where
  "write_raise_body t e s = (Raised e, iadd s (Text t))"

definition plain_tag :: "string \<Rightarrow> tag_args" where
  "plain_tag n = \<lparr>name = n, tag_id = None, classes = None, styles = None, attributes = None\<rparr>"

text \<open>The example of the \<open>__main__\<close> block: a \<open>div\<close> holding a \<open>p\<close> holding one text.\<close>

definition hello_doc :: Html where
  "hello_doc =
     snd (tag (plain_tag ''div'')
            (tag (plain_tag ''p'') (write_body ''Hello World!'' :: Html \<Rightarrow> unit outcome \<times> Html))
            (Html_init NoContent))"

section \<open>The object store\<close>

text \<open>
  Python documents are objects: an \<open>Html\<close> object refers to its deque, the deque holds
  references to \<open>_HtmlLine\<close> objects, and \<open>newline\<close> assigns to the \<open>indent\<close> field of such
  an object in place. The store maps the address of every line object and of every
  document object to its current fields; \<open>next_line\<close> and \<open>next_html\<close> are the addresses
  the next allocations return. Strings and \<open>Indent\<close> members are immutable and stay values.
\<close>

type_synonym addr = nat

record html_obj =
  obj_inner_html :: "addr list"
  obj_buffer :: string

record store =
  line_objs :: "addr \<Rightarrow> HtmlLine"
  next_line :: addr
  html_objs :: "addr \<Rightarrow> html_obj"
  next_html :: addr

definition alloc_line :: "HtmlLine \<Rightarrow> store \<Rightarrow> addr \<times> store" where
  "alloc_line l st =
     (next_line st,
      st\<lparr>line_objs := (line_objs st)(next_line st := l), next_line := Suc (next_line st)\<rparr>)"

definition set_buffer :: "addr \<Rightarrow> string \<Rightarrow> store \<Rightarrow> store" where
  "set_buffer self s st =
     st\<lparr>html_objs := (html_objs st)(self := (html_objs st self)\<lparr>obj_buffer := s\<rparr>)\<rparr>"

text \<open>\<open>Html.newline\<close> on the object at address \<open>self\<close>.\<close>

definition newline_s :: "bool \<Rightarrow> indent_arg \<Rightarrow> addr \<Rightarrow> store \<Rightarrow> store" where
  "newline_s force ind self st =
     (let d = as_indent ind;
          ob = html_objs st self;
          n = length (obj_inner_html ob) in
      if \<not> force \<and> length (obj_buffer ob) = 0 \<and> n > 0
      then (let p = obj_inner_html ob ! (n - 1) in
            st\<lparr>line_objs := (line_objs st)
                   (p := (line_objs st p)\<lparr>indent := Indent_add (indent (line_objs st p)) d\<rparr>)\<rparr>)
      else (case alloc_line \<lparr>line = obj_buffer ob, indent = d\<rparr> st of
              (p, st1) \<Rightarrow>
                st1\<lparr>html_objs := (html_objs st1)
                       (self := \<lparr>obj_inner_html = obj_inner_html ob @ [p], obj_buffer = ''''\<rparr>)\<rparr>))"

text \<open>
  \<open>Html.__iadd__\<close> on objects. The \<open>for\<close> loop iterates over the deque of \<open>other\<close>: \<open>snap\<close>
  is the deque when the iterator was made and the fourth argument holds the items not yet
  visited. A deque iterator raises \<open>RuntimeError\<close> at its next step, the last one
  included, when the deque was mutated; the only mutation in this loop is an append, so
  the deque was mutated exactly when it differs from \<open>snap\<close>. This happens when \<open>self\<close> and
  \<open>other\<close> are the same object.
\<close>

datatype content_ref = TextArg string | DocArg addr

fun iadd_loop_s :: "addr \<Rightarrow> addr \<Rightarrow> addr list \<Rightarrow> addr list \<Rightarrow> store \<Rightarrow> error + store" where
  "iadd_loop_s self other snap [] st =
     (if obj_inner_html (html_objs st other) \<noteq> snap then Inl RuntimeError else Inr st)"
| "iadd_loop_s self other snap (p # ps) st =
     (if obj_inner_html (html_objs st other) \<noteq> snap then Inl RuntimeError
      else (let st1 = set_buffer self (line (line_objs st p)) st;
                st2 = newline_s False (OfIndent (indent (line_objs st1 p))) self st1
            in iadd_loop_s self other snap ps st2))"

definition iadd_s :: "addr \<Rightarrow> content_ref \<Rightarrow> store \<Rightarrow> error + store" where
  "iadd_s self other st =
     (case other of
        TextArg s \<Rightarrow> Inr (set_buffer self (obj_buffer (html_objs st self) @ s) st)
      | DocArg b \<Rightarrow>
          (let st1 = newline_s False (OfIndent Nothing) self st;
               snap = obj_inner_html (html_objs st1 b)
           in case iadd_loop_s self b snap snap st1 of
                Inl e \<Rightarrow> Inl e
              | Inr st2 \<Rightarrow> Inr (set_buffer self (obj_buffer (html_objs st2 b)) st2)))"

text \<open>
  \<open>Html.deepcopy\<close> is \<open>copy.deepcopy\<close>: a new document object, a new deque and a new
  \<open>_HtmlLine\<close> object for every line object reached. The memo of \<open>copy.deepcopy\<close> maps an
  object already copied to its copy, so a line object met twice is copied once.
\<close>

fun deepcopy_lines :: "(addr \<times> addr) list \<Rightarrow> addr list \<Rightarrow> store \<Rightarrow> addr list \<times> store" where
  "deepcopy_lines memo [] st = ([], st)"
| "deepcopy_lines memo (p # ps) st =
     (case map_of memo p of
        Some q \<Rightarrow> (case deepcopy_lines memo ps st of (qs, st') \<Rightarrow> (q # qs, st'))
      | None \<Rightarrow>
          (case alloc_line (line_objs st p) st of
             (q, st1) \<Rightarrow>
               (case deepcopy_lines ((p, q) # memo) ps st1 of (qs, st') \<Rightarrow> (q # qs, st'))))"

definition deepcopy :: "addr \<Rightarrow> store \<Rightarrow> addr \<times> store" where
  "deepcopy self st =
     (case deepcopy_lines [] (obj_inner_html (html_objs st self)) st of
        (qs, st1) \<Rightarrow>
          (next_html st1,
           st1\<lparr>html_objs := (html_objs st1)
                  (next_html st1 :=
                     \<lparr>obj_inner_html = qs, obj_buffer = obj_buffer (html_objs st self)\<rparr>),
               next_html := Suc (next_html st1)\<rparr>))"

text \<open>\<open>Html.__add__\<close>: the copy is the target of \<open>__iadd__\<close> and is returned.\<close>

definition add :: "addr \<Rightarrow> content_ref \<Rightarrow> store \<Rightarrow> error + addr \<times> store" where
  "add self other st =
     (case deepcopy self st of
        (target, st1) \<Rightarrow>
          (case iadd_s target other st1 of
             Inl e \<Rightarrow> Inl e
           | Inr st2 \<Rightarrow> Inr (target, st2)))"

text \<open>The document an object stands for, and \<open>to_raw_html\<close> called on the object.\<close>

definition doc_view :: "store \<Rightarrow> addr \<Rightarrow> Html" where
  "doc_view st a =
     \<lparr>inner_html = map (line_objs st) (obj_inner_html (html_objs st a)),
      buffer = obj_buffer (html_objs st a)\<rparr>"

definition to_raw_html_s :: "int \<Rightarrow> addr \<Rightarrow> store \<Rightarrow> error + string" where
  "to_raw_html_s indent_size self st = to_raw_html indent_size (doc_view st self)"

text \<open>
  The references a document object holds; a document object is allocated when its address
  and the addresses in its deque have been handed out by the store.
\<close>

definition refs :: "store \<Rightarrow> addr \<Rightarrow> addr set" where
  "refs st a = set (obj_inner_html (html_objs st a))"

definition allocated :: "store \<Rightarrow> addr \<Rightarrow> bool" where
  "allocated st a = (a < next_html st \<and> list_all (\<lambda>p. p < next_line st) (obj_inner_html (html_objs st a)))"

text \<open>
  Invariants of the proofs on the store. \<open>apart st t F\<close>: the document \<open>t\<close> holds no
  reference into the set \<open>F\<close> of allocated line objects. \<open>tidy st t\<close>: the references of \<open>t\<close>
  are allocated and no line object occurs twice in its deque. \<open>memo_ok\<close>: every entry of
  the memo maps a line object below \<open>base\<close> to a copy at or above \<open>base\<close> with the same
  fields.
\<close>

definition apart :: "store \<Rightarrow> addr \<Rightarrow> addr set \<Rightarrow> bool" where
  "apart st t F = (refs st t \<inter> F = {} \<and> (\<forall>p\<in>F. p < next_line st))"

definition tidy :: "store \<Rightarrow> addr \<Rightarrow> bool" where
  "tidy st t = (distinct (obj_inner_html (html_objs st t)) \<and> (\<forall>p\<in>refs st t. p < next_line st))"

definition memo_ok :: "addr \<Rightarrow> (addr \<times> addr) list \<Rightarrow> store \<Rightarrow> bool" where
  "memo_ok base memo st =
     (\<forall>(p, q)\<in>set memo. p < base \<and> base \<le> q \<and> q < next_line st \<and> line_objs st q = line_objs st p)"

text \<open>
  A store with two documents: object 0 with the committed line \<open>a\<close> and object 1 with the
  committed line \<open>x\<close> and the pending text \<open>y\<close>.
\<close>

definition example_store :: store where
  "example_store =
     \<lparr>line_objs = (\<lambda>_. \<lparr>line = '''', indent = Nothing\<rparr>)
        (0 := \<lparr>line = ''a'', indent = Indent\<rparr>, 1 := \<lparr>line = ''x'', indent = Nothing\<rparr>),
      next_line = 2,
      html_objs = (\<lambda>_. \<lparr>obj_inner_html = [], obj_buffer = ''''\<rparr>)
        (0 := \<lparr>obj_inner_html = [0], obj_buffer = ''''\<rparr>,
         1 := \<lparr>obj_inner_html = [1], obj_buffer = ''y''\<rparr>),
      next_html = 2\<rparr>"

section \<open>The specification's vocabulary\<close>

text \<open>
  The running indent level of the specification: the sum of the deltas of the committed
  lines, starting at 0.
\<close>

definition running_level :: "HtmlLine list \<Rightarrow> int" where
  "running_level ls = sum_list (map (\<lambda>l. to_int (indent l)) ls)"

text \<open>
  The text the specification expects for committed lines from level \<open>lvl\<close> on: each line
  after \<open>indent_size\<close> times the running level spaces, ended by a newline.
\<close>

fun emitted :: "int \<Rightarrow> int \<Rightarrow> HtmlLine list \<Rightarrow> string" where
  "emitted n lvl [] = ''''"
| "emitted n lvl (l # ls) =
     replicate (nat lvl * nat n) CHR '' '' @ line l @ ''\<newline>'' @ emitted n (lvl + to_int (indent l)) ls"

text \<open>
  The specification describes a tag scope and the append of a document as sequences of
  three steps: commit the pending text with a delta (a \<open>newline\<close> that is not forced),
  write a text to the pending buffer, set the pending buffer.
\<close>

datatype doc_op = Commit Indent | Write string | SetPending string

fun apply_op :: "doc_op \<Rightarrow> Html \<Rightarrow> Html" where
  "apply_op (Commit d) s = newline False (OfIndent d) s"
| "apply_op (Write t) s = s\<lparr>buffer := buffer s @ t\<rparr>"
| "apply_op (SetPending t) s = s\<lparr>buffer := t\<rparr>"

fun run_ops :: "doc_op list \<Rightarrow> Html \<Rightarrow> Html" where
  "run_ops [] s = s"
| "run_ops (x # xs) s = run_ops xs (apply_op x s)"

definition scope_entry :: "string \<Rightarrow> doc_op list" where
  "scope_entry open_tag = [Commit Nothing, Write open_tag, Commit Indent]"

definition scope_exit :: "string \<Rightarrow> doc_op list" where
  "scope_exit close_tag = [Commit Dedent, Write close_tag, Commit Nothing]"

definition append_steps :: "Html \<Rightarrow> doc_op list" where
  "append_steps other =
     Commit Nothing
       # concat (map (\<lambda>l. [SetPending (line l), Commit (indent l)]) (inner_html other))
       @ [SetPending (buffer other)]"

section \<open>Theorems\<close>

subsection \<open>The line commit\<close>

lemma Indent_add_Nothing: "Indent_add d Nothing = d"
  by (cases d) (simp_all add: Indent_add_def from_int_def)

lemma update_last: "xs \<noteq> [] \<Longrightarrow> xs[length xs - Suc 0 := v] = butlast xs @ [v]"
  by (induction xs rule: rev_induct) simp_all

lemma to_int_eq_iff:
  "(to_int x = 1) = (x = Indent)"
  "(to_int x = - 1) = (x = Dedent)"
  "(to_int x = 0) = (x = Nothing)"
  by (cases x; simp)+

lemma Indent_add_sgn: "to_int (Indent_add a b) = sgn (to_int a + to_int b)"
  by (cases a; cases b) (simp_all add: Indent_add_def from_int_def)

lemma as_indent_sgn: "as_indent (OfIndent d) = d \<and> to_int (as_indent (OfInt n)) = sgn n"
  by (auto simp: as_indent_def from_int_def)

text \<open>
  C1. A \<open>newline\<close> that is not forced, on an empty pending buffer and with at least one
  committed line, creates no line: the last committed line keeps its text and gets its
  old delta plus the given one, the other lines and the pending buffer stay as they are.
  The addition is \<open>Indent_add\<close>: the two deltas are added as integers and the sum is taken
  back to a delta by its sign, so \<open>Indent\<close> plus \<open>Indent\<close> is \<open>Indent\<close>, \<open>Indent\<close> plus
  \<open>Dedent\<close> is \<open>Nothing\<close>, and \<open>Nothing\<close> changes nothing. In every other case the pending
  text is appended as a new committed line with the given delta and the pending buffer
  becomes empty. A delta given as an integer counts as the delta of its sign.
\<close>

theorem newline_commit:
  "(\<not> force \<and> buffer self = [] \<and> inner_html self \<noteq> [] \<longrightarrow>
      newline force ind self =
        self\<lparr>inner_html :=
          butlast (inner_html self) @
          [(last (inner_html self))
             \<lparr>indent := Indent_add (indent (last (inner_html self))) (as_indent ind)\<rparr>]\<rparr> \<and>
      to_int (indent (last (inner_html (newline force ind self)))) =
        sgn (to_int (indent (last (inner_html self))) + to_int (as_indent ind))) \<and>
   (\<not> (\<not> force \<and> buffer self = [] \<and> inner_html self \<noteq> []) \<longrightarrow>
      newline force ind self =
        self\<lparr>inner_html := inner_html self @ [\<lparr>line = buffer self, indent = as_indent ind\<rparr>],
             buffer := ''''\<rparr>) \<and>
   to_int (Indent_add old d) = sgn (to_int old + to_int d) \<and>
   Indent_add Indent Indent = Indent \<and> Indent_add Dedent Dedent = Dedent \<and>
   Indent_add Indent Dedent = Nothing \<and> Indent_add d Nothing = d \<and> Indent_add Nothing d = d \<and>
   as_indent (OfIndent d) = d \<and> to_int (as_indent (OfInt n)) = sgn n"
proof -
  have m: "newline force ind self =
        self\<lparr>inner_html :=
          butlast (inner_html self) @
          [(last (inner_html self))
             \<lparr>indent := Indent_add (indent (last (inner_html self))) (as_indent ind)\<rparr>]\<rparr>"
    if a: "\<not> force \<and> buffer self = [] \<and> inner_html self \<noteq> []"
    using a by (simp add: newline_def Let_def last_conv_nth update_last)
  have m2: "to_int (indent (last (inner_html (newline force ind self)))) =
        sgn (to_int (indent (last (inner_html self))) + to_int (as_indent ind))"
    if a: "\<not> force \<and> buffer self = [] \<and> inner_html self \<noteq> []"
    by (simp add: m [OF a] Indent_add_sgn)
  have ap: "newline force ind self =
        self\<lparr>inner_html := inner_html self @ [\<lparr>line = buffer self, indent = as_indent ind\<rparr>],
             buffer := ''''\<rparr>"
    if "\<not> (\<not> force \<and> buffer self = [] \<and> inner_html self \<noteq> [])"
    using that by (auto simp add: newline_def Let_def)
  have t: "Indent_add Indent Indent = Indent" "Indent_add Dedent Dedent = Dedent"
    "Indent_add Indent Dedent = Nothing"
    by (simp_all add: Indent_add_def from_int_def)
  have n: "Indent_add d Nothing = d" "Indent_add Nothing d = d"
    by (cases d; simp add: Indent_add_def from_int_def)+
  show ?thesis using m m2 ap t n Indent_add_sgn [of old d] as_indent_sgn [of d n] by blast
qed

theorem newline_commit_witness:
  "newline False (OfIndent Indent) \<lparr>inner_html = [\<lparr>line = ''<p>'', indent = Nothing\<rparr>], buffer = ''''\<rparr>
     = \<lparr>inner_html = [\<lparr>line = ''<p>'', indent = Indent\<rparr>], buffer = ''''\<rparr> \<and>
   newline False (OfIndent Indent) \<lparr>inner_html = [\<lparr>line = ''<p>'', indent = Indent\<rparr>], buffer = ''''\<rparr>
     = \<lparr>inner_html = [\<lparr>line = ''<p>'', indent = Indent\<rparr>], buffer = ''''\<rparr> \<and>
   newline False (OfIndent Dedent) \<lparr>inner_html = [\<lparr>line = ''<p>'', indent = Indent\<rparr>], buffer = ''''\<rparr>
     = \<lparr>inner_html = [\<lparr>line = ''<p>'', indent = Nothing\<rparr>], buffer = ''''\<rparr> \<and>
   newline True (OfInt 7) \<lparr>inner_html = [\<lparr>line = ''<p>'', indent = Indent\<rparr>], buffer = ''''\<rparr>
     = \<lparr>inner_html = [\<lparr>line = ''<p>'', indent = Indent\<rparr>, \<lparr>line = '''', indent = Indent\<rparr>],
        buffer = ''''\<rparr>"
proof -
  let ?n = "\<lparr>inner_html = [\<lparr>line = ''<p>'', indent = Nothing\<rparr>], buffer = ''''\<rparr>"
  let ?i = "\<lparr>inner_html = [\<lparr>line = ''<p>'', indent = Indent\<rparr>], buffer = ''''\<rparr>"
  note a = newline_commit [of False ?n "OfIndent Indent" Nothing Indent 0]
  note b = newline_commit [of False ?i "OfIndent Indent" Indent Indent 0]
  note c = newline_commit [of False ?i "OfIndent Dedent" Indent Dedent 0]
  note d = newline_commit [of True ?i "OfInt 7" Indent Indent 7]
  have 1: "newline False (OfIndent Indent) ?n =
             \<lparr>inner_html = [\<lparr>line = ''<p>'', indent = Indent\<rparr>], buffer = ''''\<rparr>"
    using a by simp
  have 2: "newline False (OfIndent Indent) ?i =
             \<lparr>inner_html = [\<lparr>line = ''<p>'', indent = Indent\<rparr>], buffer = ''''\<rparr>"
    using b by simp
  have 3: "newline False (OfIndent Dedent) ?i =
             \<lparr>inner_html = [\<lparr>line = ''<p>'', indent = Nothing\<rparr>], buffer = ''''\<rparr>"
    using c by simp
  have "to_int (as_indent (OfInt 7)) = sgn 7" using d by blast
  then have "as_indent (OfInt 7) = Indent" by (simp add: to_int_eq_iff)
  then have 4: "newline True (OfInt 7) ?i =
             \<lparr>inner_html = [\<lparr>line = ''<p>'', indent = Indent\<rparr>, \<lparr>line = '''', indent = Indent\<rparr>],
              buffer = ''''\<rparr>"
    using d by simp
  show ?thesis using 1 2 3 4 by simp
qed

subsection \<open>The integer conversion\<close>

text \<open>
  C2 (as the specification states it, refuted). The specification says that converting an
  integer outside \<open>{-1, 0, 1}\<close> signals an error. \<open>from_int\<close> has no failing branch: at
  \<open>2\<close> it returns \<open>Indent\<close> and at \<open>-5\<close> it returns \<open>Dedent\<close>.
\<close>

theorem from_int_out_of_range_succeeds:
  "from_int 2 = Indent \<and> from_int (- 5) = Dedent"
  by (simp add: from_int_def)

text \<open>
  C2 (amended). The conversion is total and depends on the sign of the integer only:
  it yields \<open>Indent\<close> exactly for the positive integers, \<open>Dedent\<close> exactly for the negative
  ones and \<open>Nothing\<close> exactly for zero, so \<open>-1\<close>, \<open>0\<close>, \<open>1\<close> go to \<open>Dedent\<close>, \<open>Nothing\<close>,
  \<open>Indent\<close>; converting back gives the sign of the integer, which is the integer itself
  exactly on \<open>{-1, 0, 1}\<close>.
\<close>

theorem from_int_sign:
  "(from_int n = Indent) = (0 < n) \<and>
   (from_int n = Dedent) = (n < 0) \<and>
   (from_int n = Nothing) = (n = 0) \<and>
   to_int (from_int n) = sgn n \<and>
   (to_int (from_int n) = n) = (n \<in> {- 1, 0, 1})"
  by (auto simp: from_int_def)

subsection \<open>Rendering\<close>

lemma running_level_Nil: "running_level [] = 0"
  by (simp add: running_level_def)

lemma running_level_Cons: "running_level (l # ls) = to_int (indent l) + running_level ls"
  by (simp add: running_level_def)

lemma running_level_append: "running_level (xs @ ys) = running_level xs + running_level ys"
  by (simp add: running_level_def)

lemma str_mul_space: "str_mul (str_mul '' '' n) k = replicate (nat k * nat n) CHR '' ''"
proof -
  have a: "concat (replicate m [c]) = replicate m c" for m and c :: char
    by (induction m) simp_all
  have b: "concat (replicate k (replicate m c)) = replicate (k * m) c" for k m and c :: char
    by (induction k) (simp_all add: replicate_add)
  show ?thesis by (simp add: str_mul_def a b)
qed

lemma loop_error_kind: "to_raw_html_loop n ls rs ind = Inl e \<Longrightarrow> e = WriteOutError"
  by (induction ls arbitrary: rs ind) (auto simp: Let_def split: if_splits)

lemma loop_level:
  "to_raw_html_loop n ls rs ind = Inr (out, lvl) \<Longrightarrow> lvl = ind + running_level ls"
proof (induction ls arbitrary: rs ind)
  case Nil
  then show ?case by (simp add: running_level_Nil)
next
  case (Cons l ls)
  from Cons.prems have
    "to_raw_html_loop n ls (rs @ str_mul (str_mul '' '' n) ind @ line l @ ''\<newline>'')
       (ind + to_int (indent l)) = Inr (out, lvl)"
    by (simp add: Let_def split: if_splits)
  from Cons.IH [OF this] show ?case by (simp add: running_level_Cons)
qed

lemma loop_level_nonneg:
  "to_raw_html_loop n ls rs ind = Inr (out, lvl) \<Longrightarrow> 0 \<le> ind \<Longrightarrow> 0 \<le> lvl"
proof (induction ls arbitrary: rs ind)
  case Nil
  then show ?case by simp
next
  case (Cons l ls)
  from Cons.prems(1) have nn: "0 \<le> ind + to_int (indent l)"
    by (simp add: Let_def split: if_splits)
  from Cons.prems(1) have
    "to_raw_html_loop n ls (rs @ str_mul (str_mul '' '' n) ind @ line l @ ''\<newline>'')
       (ind + to_int (indent l)) = Inr (out, lvl)"
    by (simp add: Let_def split: if_splits)
  from Cons.IH [OF this nn] show ?case .
qed

lemma loop_fails_iff:
  "(to_raw_html_loop n ls rs ind = Inl WriteOutError) =
   (\<exists>k. 0 < k \<and> k \<le> length ls \<and> ind + running_level (take k ls) < 0)"
proof (induction ls arbitrary: rs ind)
  case Nil
  show ?case by simp
next
  case (Cons l ls)
  let ?i = "ind + to_int (indent l)"
  show ?case
  proof (cases "?i < 0")
    case True
    have "0 < Suc 0 \<and> Suc 0 \<le> length (l # ls) \<and> ind + running_level (take (Suc 0) (l # ls)) < 0"
      using True by (simp add: running_level_Cons running_level_Nil)
    then have "\<exists>k. 0 < k \<and> k \<le> length (l # ls) \<and> ind + running_level (take k (l # ls)) < 0"
      by blast
    then show ?thesis using True by (simp add: Let_def)
  next
    case False
    have "(\<exists>k. 0 < k \<and> k \<le> length (l # ls) \<and> ind + running_level (take k (l # ls)) < 0) =
          (\<exists>k. 0 < k \<and> k \<le> length ls \<and> ?i + running_level (take k ls) < 0)"
      (is "?L = ?R")
    proof
      assume ?L
      then obtain k where k: "0 < k" "k \<le> length (l # ls)"
        "ind + running_level (take k (l # ls)) < 0" by blast
      then obtain j where j: "k = Suc j" by (cases k) auto
      have "j \<noteq> 0"
      proof
        assume "j = 0"
        then show False using k j False by (simp add: running_level_Cons running_level_Nil)
      qed
      then have "0 < j" by simp
      then show ?R using k j by (auto simp: running_level_Cons intro!: exI[of _ j])
    next
      assume ?R
      then obtain k where k: "0 < k" "k \<le> length ls" "?i + running_level (take k ls) < 0"
        by blast
      then show ?L by (auto simp: running_level_Cons intro!: exI[of _ "Suc k"])
    qed
    then show ?thesis using False Cons.IH by (simp add: Let_def)
  qed
qed

lemma loop_append:
  "to_raw_html_loop n (xs @ ys) rs ind =
     (case to_raw_html_loop n xs rs ind of
        Inl e \<Rightarrow> Inl e
      | Inr (rs', ind') \<Rightarrow> to_raw_html_loop n ys rs' ind')"
  by (induction xs arbitrary: rs ind) (simp_all add: Let_def)

lemma loop_emits:
  "to_raw_html_loop n ls rs ind = Inr (out, lvl) \<Longrightarrow> out = rs @ emitted n ind ls"
proof (induction ls arbitrary: rs ind)
  case Nil
  then show ?case by simp
next
  case (Cons l ls)
  from Cons.prems have
    "to_raw_html_loop n ls (rs @ str_mul (str_mul '' '' n) ind @ line l @ ''\<newline>'')
       (ind + to_int (indent l)) = Inr (out, lvl)"
    by (simp add: Let_def split: if_splits)
  from Cons.IH [OF this] show ?case by (simp add: str_mul_space)
qed

text \<open>
  C4. \<open>to_raw_html\<close> raises \<open>WriteOutError\<close> exactly when the running level, which starts at
  0 and takes the delta of each committed line in order, is negative after some prefix of
  the committed lines. When it is negative after no prefix, the call returns: the loop
  ends with the unclamped sum of all deltas as its level, and the result is the text of
  the loop followed by the line of the pending buffer.
\<close>

theorem to_raw_html_raises_iff:
  "(to_raw_html indent_size self = Inl WriteOutError) =
     (\<exists>k \<le> length (inner_html self). running_level (take k (inner_html self)) < 0) \<and>
   ((\<forall>k \<le> length (inner_html self). 0 \<le> running_level (take k (inner_html self))) \<longrightarrow>
      (\<exists>out lvl. to_raw_html_loop indent_size (inner_html self) '''' 0 = Inr (out, lvl) \<and>
         lvl = running_level (inner_html self) \<and> 0 \<le> lvl \<and>
         to_raw_html indent_size self =
           Inr (out @ str_mul '' '' indent_size @ buffer self @ ''\<newline>'')))"
proof (intro conjI impI)
  have "(to_raw_html indent_size self = Inl WriteOutError) =
        (to_raw_html_loop indent_size (inner_html self) '''' 0 = Inl WriteOutError)"
    by (auto simp: to_raw_html_def split: sum.splits dest: loop_error_kind)
  also have "\<dots> = (\<exists>k. 0 < k \<and> k \<le> length (inner_html self) \<and>
                       0 + running_level (take k (inner_html self)) < 0)"
    by (rule loop_fails_iff)
  also have "\<dots> = (\<exists>k \<le> length (inner_html self). running_level (take k (inner_html self)) < 0)"
  proof -
    have "\<not> running_level (take 0 (inner_html self)) < 0" by (simp add: running_level_Nil)
    then show ?thesis by (metis add_0 gr0I)
  qed
  finally show "(to_raw_html indent_size self = Inl WriteOutError) =
     (\<exists>k \<le> length (inner_html self). running_level (take k (inner_html self)) < 0)" .
next
  assume nn: "\<forall>k \<le> length (inner_html self). 0 \<le> running_level (take k (inner_html self))"
  then have "\<not> (\<exists>k. 0 < k \<and> k \<le> length (inner_html self) \<and>
                 0 + running_level (take k (inner_html self)) < 0)"
    by auto
  then have "to_raw_html_loop indent_size (inner_html self) '''' 0 \<noteq> Inl WriteOutError"
    using loop_fails_iff [of indent_size "inner_html self" "''''" 0] by blast
  then obtain out lvl where
    r: "to_raw_html_loop indent_size (inner_html self) '''' 0 = Inr (out, lvl)"
    by (cases "to_raw_html_loop indent_size (inner_html self) '''' 0")
       (auto dest: loop_error_kind)
  have l: "lvl = running_level (inner_html self)" using loop_level [OF r] by simp
  have "0 \<le> lvl" using nn l by auto
  then show "\<exists>out lvl. to_raw_html_loop indent_size (inner_html self) '''' 0 = Inr (out, lvl) \<and>
         lvl = running_level (inner_html self) \<and> 0 \<le> lvl \<and>
         to_raw_html indent_size self =
           Inr (out @ str_mul '' '' indent_size @ buffer self @ ''\<newline>'')"
    using r l by (simp add: to_raw_html_def)
qed

theorem to_raw_html_raises_iff_witness:
  "to_raw_html 2 \<lparr>inner_html = [\<lparr>line = ''</p>'', indent = Dedent\<rparr>], buffer = ''''\<rparr>
     = Inl WriteOutError \<and>
   (\<exists>out lvl. to_raw_html 2 \<lparr>inner_html = [\<lparr>line = ''<p>'', indent = Indent\<rparr>], buffer = ''x''\<rparr>
      = Inr (out @ str_mul '' '' 2 @ ''x'' @ ''\<newline>'') \<and> lvl = (1::int))"
proof -
  let ?bad = "\<lparr>inner_html = [\<lparr>line = ''</p>'', indent = Dedent\<rparr>], buffer = ''''\<rparr>"
  let ?good = "\<lparr>inner_html = [\<lparr>line = ''<p>'', indent = Indent\<rparr>], buffer = ''x''\<rparr>"
  have "running_level (take 1 (inner_html ?bad)) < 0" by (simp add: running_level_def)
  then have "\<exists>k \<le> length (inner_html ?bad). running_level (take k (inner_html ?bad)) < 0"
    by (intro exI[of _ 1]) simp
  then have 1: "to_raw_html 2 ?bad = Inl WriteOutError"
    using to_raw_html_raises_iff [of 2 ?bad] by blast
  have "\<forall>k \<le> length (inner_html ?good). 0 \<le> running_level (take k (inner_html ?good))"
  proof (intro allI impI)
    fix k assume "k \<le> length (inner_html ?good)"
    then have "k = 0 \<or> k = 1" by auto
    then show "0 \<le> running_level (take k (inner_html ?good))"
      by (auto simp: running_level_def)
  qed
  then have 2: "\<exists>out lvl. to_raw_html 2 ?good = Inr (out @ str_mul '' '' 2 @ ''x'' @ ''\<newline>'') \<and> lvl = (1::int)"
    using to_raw_html_raises_iff [of 2 ?good] by (auto simp: running_level_def)
  show ?thesis using 1 2 by blast
qed

text \<open>
  C3 (the code at the failing inputs). The specification prefixes every emitted line,
  the final line of the pending buffer included, by \<open>indent_size\<close> times the running level.
  The loop does so for the committed lines (\<open>loop_emits\<close> above); the statement after the
  loop uses \<open>' ' * indent_size\<close> without the level. On the empty document with pending
  text \<open>x\<close> the level is 0 and the final line still gets two spaces; after two indenting
  lines the level is 2 and the final line gets two spaces, not four.
\<close>

theorem final_line_ignores_level:
  "to_raw_html 2 \<lparr>inner_html = [], buffer = ''x''\<rparr> = Inr ''  x\<newline>'' \<and>
   to_raw_html 2 \<lparr>inner_html = [\<lparr>line = ''a'', indent = Indent\<rparr>, \<lparr>line = ''b'', indent = Indent\<rparr>],
                   buffer = ''x''\<rparr> = Inr ''a\<newline>  b\<newline>  x\<newline>''"
  by (simp add: to_raw_html_def str_mul_def Let_def eval_nat_numeral)

subsection \<open>Tag scopes\<close>

lemma newline_append:
  "force \<or> buffer s \<noteq> [] \<or> inner_html s = [] \<Longrightarrow>
   newline force ind s =
     \<lparr>inner_html = inner_html s @ [\<lparr>line = buffer s, indent = as_indent ind\<rparr>], buffer = ''''\<rparr>"
  by (auto simp: newline_def Let_def)

lemma newline_merge:
  "buffer s = [] \<Longrightarrow> inner_html s = xs @ [l] \<Longrightarrow>
   newline False ind s =
     \<lparr>inner_html = xs @ [l\<lparr>indent := Indent_add (indent l) (as_indent ind)\<rparr>], buffer = ''''\<rparr>"
  by (simp add: newline_def Let_def)

lemma newline_Nothing_idle:
  "buffer s = [] \<Longrightarrow> inner_html s \<noteq> [] \<Longrightarrow> newline False (OfIndent Nothing) s = s"
  by (simp add: newline_def as_indent_def Indent_add_Nothing Let_def)

lemma tags_of_nonempty: "fst (tags_of a) \<noteq> [] \<and> snd (tags_of a) \<noteq> []"
  by (simp add: tags_of_def get_open_and_close_tags_def Let_def)

lemma tags_of_plain: "tags_of (plain_tag n) = (''<'' @ n @ ''>'', ''</'' @ n @ ''>'')"
  by (simp add: tags_of_def plain_tag_def get_open_and_close_tags_def)

lemma tag_unfold:
  "tag a body self =
     (case body (run_ops (scope_entry (fst (tags_of a))) self) of
        (r, s) \<Rightarrow> (r, run_ops (scope_exit (snd (tags_of a))) s))"
  by (cases "tags_of a")
     (auto simp: tag_def scope_entry_def scope_exit_def iadd_def Let_def
           split: prod.splits outcome.splits)

lemma run_scope_entry:
  "t \<noteq> [] \<Longrightarrow>
   run_ops (scope_entry t) s =
     \<lparr>inner_html = inner_html (newline False (OfIndent Nothing) s) @ [\<lparr>line = t, indent = Indent\<rparr>],
      buffer = ''''\<rparr>"
proof -
  assume t: "t \<noteq> []"
  let ?s1 = "newline False (OfIndent Nothing) s"
  have b: "buffer ?s1 = []" by (simp add: newline_def Let_def)
  have "newline False (OfIndent Indent) (?s1\<lparr>buffer := buffer ?s1 @ t\<rparr>) =
          \<lparr>inner_html = inner_html ?s1 @ [\<lparr>line = t, indent = Indent\<rparr>], buffer = ''''\<rparr>"
    using t b by (simp add: newline_append as_indent_def)
  then show ?thesis by (simp add: scope_entry_def)
qed

lemma run_scope_exit_merge:
  "t \<noteq> [] \<Longrightarrow> buffer s = [] \<Longrightarrow> inner_html s = xs @ [l] \<Longrightarrow>
   run_ops (scope_exit t) s =
     \<lparr>inner_html = xs @ [l\<lparr>indent := Indent_add (indent l) Dedent\<rparr>, \<lparr>line = t, indent = Nothing\<rparr>],
      buffer = ''''\<rparr>"
  by (simp add: scope_exit_def newline_merge [where xs = xs and l = l] newline_append as_indent_def)

lemma run_scope_exit_append:
  "t \<noteq> [] \<Longrightarrow> buffer s \<noteq> [] \<Longrightarrow>
   run_ops (scope_exit t) s =
     \<lparr>inner_html = inner_html s @ [\<lparr>line = buffer s, indent = Dedent\<rparr>, \<lparr>line = t, indent = Nothing\<rparr>],
      buffer = ''''\<rparr>"
  by (simp add: scope_exit_def newline_append as_indent_def)

text \<open>
  C5. A tag scope runs the entry steps (commit with \<open>Nothing\<close>, write the open tag,
  commit with \<open>Indent\<close>), then the body on the resulting document, then the exit steps
  (commit with \<open>Dedent\<close>, write the close tag, commit with \<open>Nothing\<close>) once on the document
  the body leaves, whether the body returned or raised; the outcome of the body is the
  outcome of the scope.
\<close>

theorem tag_scope_steps:
  "tag a body self =
     (case body (run_ops (scope_entry (fst (tags_of a))) self) of
        (r, s) \<Rightarrow> (r, run_ops (scope_exit (snd (tags_of a))) s)) \<and>
   (body (run_ops (scope_entry (fst (tags_of a))) self) = (Raised e, s') \<longrightarrow>
      tag a body self = (Raised e, run_ops (scope_exit (snd (tags_of a))) s')) \<and>
   (body (run_ops (scope_entry (fst (tags_of a))) self) = (Returned, s') \<longrightarrow>
      tag a body self = (Returned, run_ops (scope_exit (snd (tags_of a))) s'))"
  by (simp add: tag_unfold)

theorem tag_scope_steps_witness:
  "tag (plain_tag ''p'') (write_raise_body ''x'' (0::nat)) (Html_init NoContent) =
     (Raised 0,
      \<lparr>inner_html = [\<lparr>line = '''', indent = Nothing\<rparr>, \<lparr>line = ''<p>'', indent = Indent\<rparr>,
                     \<lparr>line = ''x'', indent = Dedent\<rparr>, \<lparr>line = ''</p>'', indent = Nothing\<rparr>],
       buffer = ''''\<rparr>) \<and>
   tag (plain_tag ''p'') (write_body ''x'' :: Html \<Rightarrow> nat outcome \<times> Html) (Html_init NoContent) =
     (Returned,
      \<lparr>inner_html = [\<lparr>line = '''', indent = Nothing\<rparr>, \<lparr>line = ''<p>'', indent = Indent\<rparr>,
                     \<lparr>line = ''x'', indent = Dedent\<rparr>, \<lparr>line = ''</p>'', indent = Nothing\<rparr>],
       buffer = ''''\<rparr>)"
  using tag_scope_steps [of "plain_tag ''p''" "write_raise_body ''x'' (0::nat)" "Html_init NoContent" 0
           "\<lparr>inner_html = [\<lparr>line = '''', indent = Nothing\<rparr>, \<lparr>line = ''<p>'', indent = Indent\<rparr>],
             buffer = ''x''\<rparr>"]
        tag_scope_steps [of "plain_tag ''p''" "write_body ''x'' :: Html \<Rightarrow> nat outcome \<times> Html" "Html_init NoContent" 0
           "\<lparr>inner_html = [\<lparr>line = '''', indent = Nothing\<rparr>, \<lparr>line = ''<p>'', indent = Indent\<rparr>],
             buffer = ''x''\<rparr>"]
  by (simp add: plain_tag_def tags_of_def get_open_and_close_tags_def write_raise_body_def
        write_body_def Html_init_def scope_entry_def scope_exit_def newline_def iadd_def
        as_indent_def Let_def)

text \<open>
  C10. On a document with no committed line and an empty pending buffer a \<open>newline\<close> that
  is not forced appends a line with empty text. So the entry steps of a scope opened on
  the fresh empty document leave a blank line of delta \<open>Nothing\<close> before the open-tag
  line, the body of that scope starts from these two lines, and with an empty body the
  committed lines are the blank line, the open tag and the close tag.
\<close>

theorem first_scope_leading_blank_line:
  "newline False ind \<lparr>inner_html = [], buffer = ''''\<rparr> =
     \<lparr>inner_html = [\<lparr>line = '''', indent = as_indent ind\<rparr>], buffer = ''''\<rparr> \<and>
   run_ops (scope_entry (fst (tags_of a))) (Html_init NoContent) =
     \<lparr>inner_html = [\<lparr>line = '''', indent = Nothing\<rparr>, \<lparr>line = fst (tags_of a), indent = Indent\<rparr>],
      buffer = ''''\<rparr> \<and>
   tag a body (Html_init NoContent) =
     (case body \<lparr>inner_html = [\<lparr>line = '''', indent = Nothing\<rparr>,
                                \<lparr>line = fst (tags_of a), indent = Indent\<rparr>],
                  buffer = ''''\<rparr> of
        (r, s) \<Rightarrow> (r, run_ops (scope_exit (snd (tags_of a))) s)) \<and>
   inner_html (snd (tag a (pass_body :: Html \<Rightarrow> unit outcome \<times> Html) (Html_init NoContent))) =
     [\<lparr>line = '''', indent = Nothing\<rparr>, \<lparr>line = fst (tags_of a), indent = Nothing\<rparr>,
      \<lparr>line = snd (tags_of a), indent = Nothing\<rparr>]"
proof -
  have ne: "fst (tags_of a) \<noteq> []" "snd (tags_of a) \<noteq> []"
    using tags_of_nonempty [of a] by simp_all
  let ?l1 = "\<lparr>line = fst (tags_of a), indent = Indent\<rparr>"
  let ?blank = "\<lparr>line = '''', indent = Nothing\<rparr>"
  have 1: "newline False ind \<lparr>inner_html = [], buffer = ''''\<rparr> =
     \<lparr>inner_html = [\<lparr>line = '''', indent = as_indent ind\<rparr>], buffer = ''''\<rparr>"
    by (simp add: newline_append)
  have 2: "run_ops (scope_entry (fst (tags_of a))) (Html_init NoContent) =
     \<lparr>inner_html = [?blank, ?l1], buffer = ''''\<rparr>"
    using ne by (simp add: run_scope_entry Html_init_def newline_append as_indent_def)
  have 3: "tag a body (Html_init NoContent) =
     (case body \<lparr>inner_html = [?blank, ?l1], buffer = ''''\<rparr> of
        (r, s) \<Rightarrow> (r, run_ops (scope_exit (snd (tags_of a))) s))"
    for body :: "Html \<Rightarrow> 'y outcome \<times> Html"
    by (simp add: tag_unfold 2)
  have "run_ops (scope_exit (snd (tags_of a))) \<lparr>inner_html = [?blank, ?l1], buffer = ''''\<rparr> =
          \<lparr>inner_html = [?blank, \<lparr>line = fst (tags_of a), indent = Nothing\<rparr>,
                          \<lparr>line = snd (tags_of a), indent = Nothing\<rparr>],
           buffer = ''''\<rparr>"
    using ne
    by (simp add: run_scope_exit_merge [where xs = "[?blank]" and l = ?l1]
          Indent_add_def from_int_def)
  then have 4: "inner_html (snd (tag a (pass_body :: Html \<Rightarrow> unit outcome \<times> Html) (Html_init NoContent))) =
     [?blank, \<lparr>line = fst (tags_of a), indent = Nothing\<rparr>,
      \<lparr>line = snd (tags_of a), indent = Nothing\<rparr>]"
    by (simp add: 3 pass_body_def)
  show ?thesis using 1 2 3 [of body] 4 by simp
qed

text \<open>
  C8 (as the specification states it, refuted). On the fresh empty document a scope with
  an empty body commits three lines, not two: a blank line comes first.
\<close>

theorem empty_scope_on_fresh_document_adds_three_lines:
  "inner_html (Html_init NoContent) = [] \<and>
   inner_html (snd (tag (plain_tag ''div'') (pass_body :: Html \<Rightarrow> unit outcome \<times> Html)
                     (Html_init NoContent))) =
     [\<lparr>line = '''', indent = Nothing\<rparr>, \<lparr>line = ''<div>'', indent = Nothing\<rparr>,
      \<lparr>line = ''</div>'', indent = Nothing\<rparr>] \<and>
   length (inner_html (snd (tag (plain_tag ''div'') (pass_body :: Html \<Rightarrow> unit outcome \<times> Html)
                     (Html_init NoContent)))) \<noteq>
   length (inner_html (Html_init NoContent)) + 2"
  by (simp add: tag_def plain_tag_def tags_of_def get_open_and_close_tags_def pass_body_def
        Html_init_def newline_def iadd_def as_indent_def Indent_add_def from_int_def Let_def)

text \<open>
  C8 (amended). On a document with an empty pending buffer and at least one committed
  line, a scope with an empty body leaves the committed lines as they were and adds
  exactly two: the open-tag line and the close-tag line, both with delta \<open>Nothing\<close>, so the
  deltas of the pair sum to zero. When the loop of \<open>to_raw_html\<close> passes the old lines and
  ends at level \<open>lvl\<close>, it emits the two new lines with the same prefix, that of level
  \<open>lvl\<close>, and ends at \<open>lvl\<close> again.
\<close>

theorem empty_scope_adds_two_lines:
  assumes "buffer self = ''''" and "inner_html self \<noteq> []"
  shows "tag a (pass_body :: Html \<Rightarrow> 'x outcome \<times> Html) self =
           (Returned,
            \<lparr>inner_html = inner_html self @
               [\<lparr>line = fst (tags_of a), indent = Nothing\<rparr>,
                \<lparr>line = snd (tags_of a), indent = Nothing\<rparr>],
             buffer = ''''\<rparr>) \<and>
         running_level [\<lparr>line = fst (tags_of a), indent = Nothing\<rparr>,
                        \<lparr>line = snd (tags_of a), indent = Nothing\<rparr>] = 0 \<and>
         (to_raw_html_loop n (inner_html self) '''' 0 = Inr (out, lvl) \<longrightarrow>
            to_raw_html_loop n
              (inner_html (snd (tag a (pass_body :: Html \<Rightarrow> 'x outcome \<times> Html) self))) '''' 0 =
              Inr (out @ str_mul (str_mul '' '' n) lvl @ fst (tags_of a) @ ''\<newline>''
                       @ str_mul (str_mul '' '' n) lvl @ snd (tags_of a) @ ''\<newline>'', lvl))"
proof -
  have ne: "fst (tags_of a) \<noteq> []" "snd (tags_of a) \<noteq> []"
    using tags_of_nonempty [of a] by simp_all
  let ?l1 = "\<lparr>line = fst (tags_of a), indent = Indent\<rparr>"
  have e: "run_ops (scope_entry (fst (tags_of a))) self =
             \<lparr>inner_html = inner_html self @ [?l1], buffer = ''''\<rparr>"
    using ne assms by (simp add: run_scope_entry newline_Nothing_idle)
  have x: "run_ops (scope_exit (snd (tags_of a)))
             \<lparr>inner_html = inner_html self @ [?l1], buffer = ''''\<rparr> =
           \<lparr>inner_html = inner_html self @
               [\<lparr>line = fst (tags_of a), indent = Nothing\<rparr>,
                \<lparr>line = snd (tags_of a), indent = Nothing\<rparr>],
             buffer = ''''\<rparr>"
    using ne
    by (simp add: run_scope_exit_merge [where xs = "inner_html self" and l = ?l1]
          Indent_add_def from_int_def)
  have 1: "tag a (pass_body :: Html \<Rightarrow> 'x outcome \<times> Html) self =
           (Returned,
            \<lparr>inner_html = inner_html self @
               [\<lparr>line = fst (tags_of a), indent = Nothing\<rparr>,
                \<lparr>line = snd (tags_of a), indent = Nothing\<rparr>],
             buffer = ''''\<rparr>)"
    by (simp add: tag_unfold e pass_body_def x)
  have 2: "running_level [\<lparr>line = fst (tags_of a), indent = Nothing\<rparr>,
                        \<lparr>line = snd (tags_of a), indent = Nothing\<rparr>] = 0"
    by (simp add: running_level_def)
  have 3: "to_raw_html_loop n
              (inner_html (snd (tag a (pass_body :: Html \<Rightarrow> 'x outcome \<times> Html) self))) '''' 0 =
              Inr (out @ str_mul (str_mul '' '' n) lvl @ fst (tags_of a) @ ''\<newline>''
                       @ str_mul (str_mul '' '' n) lvl @ snd (tags_of a) @ ''\<newline>'', lvl)"
    if r: "to_raw_html_loop n (inner_html self) '''' 0 = Inr (out, lvl)"
  proof -
    have "0 \<le> lvl" using loop_level_nonneg [OF r] by simp
    then show ?thesis by (simp add: 1 loop_append r Let_def)
  qed
  show ?thesis using 1 2 3 by blast
qed

theorem empty_scope_adds_two_lines_witness:
  "tag (plain_tag ''div'') (pass_body :: Html \<Rightarrow> unit outcome \<times> Html)
       (Html_init (OneLine ''<!DOCTYPE html>'')) =
     (Returned,
      \<lparr>inner_html = [\<lparr>line = ''<!DOCTYPE html>'', indent = Nothing\<rparr>,
                     \<lparr>line = ''<div>'', indent = Nothing\<rparr>,
                     \<lparr>line = ''</div>'', indent = Nothing\<rparr>],
       buffer = ''''\<rparr>) \<and>
   to_raw_html_loop 2
     (inner_html (snd (tag (plain_tag ''div'') (pass_body :: Html \<Rightarrow> unit outcome \<times> Html)
                         (Html_init (OneLine ''<!DOCTYPE html>''))))) '''' 0 =
     Inr (''<!DOCTYPE html>\<newline><div>\<newline></div>\<newline>'', 0)"
proof -
  let ?d = "Html_init (OneLine ''<!DOCTYPE html>'')"
  have b: "buffer ?d = ''''" and l: "inner_html ?d \<noteq> []"
    by (simp_all add: Html_init_def)
  have r: "to_raw_html_loop 2 (inner_html ?d) '''' 0 = Inr (''<!DOCTYPE html>\<newline>'', 0)"
    by (simp add: Html_init_def str_mul_space)
  have i: "inner_html ?d = [\<lparr>line = ''<!DOCTYPE html>'', indent = Nothing\<rparr>]"
    by (simp add: Html_init_def)
  note th = empty_scope_adds_two_lines [OF b l, of "plain_tag ''div''" 2 "''<!DOCTYPE html>\<newline>''" 0,
            where ?'x = unit]
  from th [THEN conjunct1] have 1: "tag (plain_tag ''div'') (pass_body :: Html \<Rightarrow> unit outcome \<times> Html) ?d =
     (Returned,
      \<lparr>inner_html = [\<lparr>line = ''<!DOCTYPE html>'', indent = Nothing\<rparr>,
                     \<lparr>line = ''<div>'', indent = Nothing\<rparr>,
                     \<lparr>line = ''</div>'', indent = Nothing\<rparr>],
       buffer = ''''\<rparr>)"
    by (simp add: tags_of_plain i)
  from th [THEN conjunct2, THEN conjunct2, THEN mp, OF r] have 2: "to_raw_html_loop 2
     (inner_html (snd (tag (plain_tag ''div'') (pass_body :: Html \<Rightarrow> unit outcome \<times> Html) ?d))) '''' 0 =
     Inr (''<!DOCTYPE html>\<newline><div>\<newline></div>\<newline>'', 0)"
    by (simp add: tags_of_plain str_mul_space)
  show ?thesis using 1 2 by simp
qed

subsection \<open>The example document\<close>

lemma hello_doc_lines:
  "hello_doc =
     \<lparr>inner_html =
        [\<lparr>line = '''', indent = Nothing\<rparr>,
         \<lparr>line = ''<div>'', indent = Indent\<rparr>,
         \<lparr>line = ''<p>'', indent = Indent\<rparr>,
         \<lparr>line = ''Hello World!'', indent = Dedent\<rparr>,
         \<lparr>line = ''</p>'', indent = Dedent\<rparr>,
         \<lparr>line = ''</div>'', indent = Nothing\<rparr>],
      buffer = ''''\<rparr>"
proof -
  let ?blank = "\<lparr>line = '''', indent = Nothing\<rparr>"
  let ?div = "\<lparr>line = ''<div>'', indent = Indent\<rparr>"
  let ?p = "\<lparr>line = ''<p>'', indent = Indent\<rparr>"
  let ?d1 = "\<lparr>inner_html = [?blank, ?div], buffer = ''''\<rparr>"
  let ?d2 = "\<lparr>inner_html = [?blank, ?div, ?p], buffer = ''''\<rparr>"
  let ?d3 = "\<lparr>inner_html = [?blank, ?div, ?p, \<lparr>line = ''Hello World!'', indent = Dedent\<rparr>,
                            \<lparr>line = ''</p>'', indent = Nothing\<rparr>], buffer = ''''\<rparr>"
  have e1: "run_ops (scope_entry ''<div>'') (Html_init NoContent) = ?d1"
    by (simp add: run_scope_entry Html_init_def newline_append as_indent_def)
  have e2: "run_ops (scope_entry ''<p>'') ?d1 = ?d2"
    by (simp add: run_scope_entry newline_Nothing_idle)
  have x2: "run_ops (scope_exit ''</p>'') (?d2\<lparr>buffer := ''Hello World!''\<rparr>) = ?d3"
    by (simp add: run_scope_exit_append)
  have inner: "tag (plain_tag ''p'') (write_body ''Hello World!'' :: Html \<Rightarrow> unit outcome \<times> Html) ?d1
                 = (Returned, ?d3)"
    using e2 x2 by (simp add: tag_unfold tags_of_plain write_body_def iadd_def)
  have x1: "run_ops (scope_exit ''</div>'') ?d3 =
              \<lparr>inner_html = [?blank, ?div, ?p, \<lparr>line = ''Hello World!'', indent = Dedent\<rparr>,
                            \<lparr>line = ''</p>'', indent = Dedent\<rparr>,
                            \<lparr>line = ''</div>'', indent = Nothing\<rparr>], buffer = ''''\<rparr>"
    by (simp add: run_scope_exit_merge
          [where xs = "[?blank, ?div, ?p, \<lparr>line = ''Hello World!'', indent = Dedent\<rparr>]"
             and l = "\<lparr>line = ''</p>'', indent = Nothing\<rparr>"]
          Indent_add_def from_int_def)
  show ?thesis
    using e1 inner x1 by (simp add: hello_doc_def tag_unfold tags_of_plain)
qed

lemma hello_doc_loop:
  "to_raw_html_loop 2 (inner_html hello_doc) '''' 0 =
     Inr (''\<newline><div>\<newline>  <p>\<newline>    Hello World!\<newline>  </p>\<newline></div>\<newline>'', 0)"
  by (simp add: hello_doc_lines str_mul_space Let_def eval_nat_numeral)

lemma hello_doc_raw:
  "to_raw_html 2 hello_doc =
     Inr ''\<newline><div>\<newline>  <p>\<newline>    Hello World!\<newline>  </p>\<newline></div>\<newline>  \<newline>''"
proof -
  have b: "buffer hello_doc = ''''" by (simp add: hello_doc_lines)
  have s: "str_mul '' '' 2 = ''  ''" by (simp add: str_mul_def eval_nat_numeral)
  show ?thesis by (simp add: to_raw_html_def hello_doc_loop b s)
qed

text \<open>
  C9 (as the specification states it, refuted). Rendering the example with indent size 2
  does not give the five lines followed by one blank line: the output starts with a blank
  line, and its last line holds two spaces.
\<close>

theorem example_starts_with_blank_line:
  "to_raw_html 2 hello_doc =
     Inr ''\<newline><div>\<newline>  <p>\<newline>    Hello World!\<newline>  </p>\<newline></div>\<newline>  \<newline>'' \<and>
   to_raw_html 2 hello_doc \<noteq>
     Inr ''<div>\<newline>  <p>\<newline>    Hello World!\<newline>  </p>\<newline></div>\<newline>\<newline>''"
  by (simp add: hello_doc_raw)

text \<open>
  C9 (amended). The example document has six committed lines, the first one blank, and an
  empty pending buffer. Rendered with indent size 2 it is a blank line, then \<open><div>\<close>,
  \<open><p>\<close>, \<open>Hello World!\<close>, \<open></p>\<close>, \<open></div>\<close> at 0, 2, 4, 2 and 0 spaces, each ended by a
  newline, then one final line for the empty pending buffer that holds spaces only.
\<close>

theorem hello_doc_render:
  "inner_html hello_doc =
     [\<lparr>line = '''', indent = Nothing\<rparr>,
      \<lparr>line = ''<div>'', indent = Indent\<rparr>,
      \<lparr>line = ''<p>'', indent = Indent\<rparr>,
      \<lparr>line = ''Hello World!'', indent = Dedent\<rparr>,
      \<lparr>line = ''</p>'', indent = Dedent\<rparr>,
      \<lparr>line = ''</div>'', indent = Nothing\<rparr>] \<and>
   buffer hello_doc = '''' \<and>
   (\<exists>k. to_raw_html 2 hello_doc =
      Inr (''\<newline><div>\<newline>  <p>\<newline>    Hello World!\<newline>  </p>\<newline></div>\<newline>''
           @ replicate k CHR '' '' @ ''\<newline>''))"
proof (intro conjI)
  show "inner_html hello_doc =
     [\<lparr>line = '''', indent = Nothing\<rparr>,
      \<lparr>line = ''<div>'', indent = Indent\<rparr>,
      \<lparr>line = ''<p>'', indent = Indent\<rparr>,
      \<lparr>line = ''Hello World!'', indent = Dedent\<rparr>,
      \<lparr>line = ''</p>'', indent = Dedent\<rparr>,
      \<lparr>line = ''</div>'', indent = Nothing\<rparr>]"
    by (simp add: hello_doc_lines)
  show "buffer hello_doc = ''''" by (simp add: hello_doc_lines)
  have "to_raw_html 2 hello_doc =
      Inr (''\<newline><div>\<newline>  <p>\<newline>    Hello World!\<newline>  </p>\<newline></div>\<newline>''
           @ replicate (Suc (Suc 0)) CHR '' '' @ ''\<newline>'')"
    by (simp add: hello_doc_raw)
  then show "\<exists>k. to_raw_html 2 hello_doc =
      Inr (''\<newline><div>\<newline>  <p>\<newline>    Hello World!\<newline>  </p>\<newline></div>\<newline>''
           @ replicate k CHR '' '' @ ''\<newline>'')"
    by (rule exI [where x = "Suc (Suc 0)"])
qed

subsection \<open>Appending a document\<close>

lemma run_ops_append: "run_ops (xs @ ys) s = run_ops ys (run_ops xs s)"
  by (induction xs arbitrary: s) simp_all

lemma iadd_loop_steps:
  "iadd_loop ls s = run_ops (concat (map (\<lambda>l. [SetPending (line l), Commit (indent l)]) ls)) s"
  by (induction ls arbitrary: s) simp_all

lemma iadd_loop_splice:
  "list_all (\<lambda>l. line l \<noteq> []) ls \<Longrightarrow> inner_html (iadd_loop ls s) = inner_html s @ ls"
proof (induction ls arbitrary: s)
  case Nil
  show ?case by simp
next
  case (Cons l ls)
  have "newline False (OfIndent (indent l)) (s\<lparr>buffer := line l\<rparr>) =
          \<lparr>inner_html = inner_html s @ [l], buffer = ''''\<rparr>"
    using Cons.prems by (simp add: newline_append as_indent_def)
  then show ?case using Cons by simp
qed

lemma newline_lines_nonempty: "inner_html (newline force ind s) \<noteq> []"
  by (simp add: newline_def Let_def)

lemma iadd_loop_length:
  "inner_html s \<noteq> [] \<Longrightarrow>
   length (inner_html (iadd_loop ls s)) =
     length (inner_html s) + length (filter (\<lambda>l. line l \<noteq> []) ls)"
proof (induction ls arbitrary: s)
  case Nil
  show ?case by simp
next
  case (Cons l ls)
  let ?s' = "newline False (OfIndent (indent l)) (s\<lparr>buffer := line l\<rparr>)"
  have ne: "inner_html ?s' \<noteq> []" by (rule newline_lines_nonempty)
  have "length (inner_html ?s') = length (inner_html s) + (if line l = [] then 0 else 1)"
    using Cons.prems by (simp add: newline_def Let_def)
  then show ?case using Cons.IH [OF ne] by simp
qed

lemma filter_all_length: "length (filter P xs) = length xs \<Longrightarrow> list_all P xs"
proof (induction xs)
  case Nil
  show ?case by simp
next
  case (Cons x xs)
  have le: "length (filter P xs) \<le> length xs" by (rule length_filter_le)
  show ?case
  proof (cases "P x")
    case True
    then show ?thesis using Cons by simp
  next
    case False
    then show ?thesis using Cons.prems le by simp
  qed
qed

lemma iadd_loop_splice_iff:
  assumes "inner_html s \<noteq> []"
  shows "(inner_html (iadd_loop ls s) = inner_html s @ ls) = list_all (\<lambda>l. line l \<noteq> []) ls"
proof
  assume "inner_html (iadd_loop ls s) = inner_html s @ ls"
  then have "length (inner_html (iadd_loop ls s)) = length (inner_html s) + length ls" by simp
  then have "length (filter (\<lambda>l. line l \<noteq> []) ls) = length ls"
    using iadd_loop_length [OF assms, of ls] by simp
  then show "list_all (\<lambda>l. line l \<noteq> []) ls"
    by (rule filter_all_length)
next
  assume "list_all (\<lambda>l. line l \<noteq> []) ls"
  then show "inner_html (iadd_loop ls s) = inner_html s @ ls" by (rule iadd_loop_splice)
qed

text \<open>
  C6 (as the specification states it, refuted). The append does not always splice the
  committed lines of \<open>other\<close> unchanged behind those of \<open>self\<close>: a committed line of
  \<open>other\<close> with empty text is not appended, its delta is added to the line before it.
\<close>

theorem append_drops_empty_lines:
  "inner_html (iadd \<lparr>inner_html = [\<lparr>line = ''a'', indent = Indent\<rparr>], buffer = ''''\<rparr>
                 (Fragment \<lparr>inner_html = [\<lparr>line = '''', indent = Indent\<rparr>,
                                           \<lparr>line = ''x'', indent = Nothing\<rparr>],
                             buffer = ''''\<rparr>)) =
     [\<lparr>line = ''a'', indent = Indent\<rparr>, \<lparr>line = ''x'', indent = Nothing\<rparr>] \<and>
   inner_html (iadd \<lparr>inner_html = [\<lparr>line = ''a'', indent = Indent\<rparr>], buffer = ''''\<rparr>
                 (Fragment \<lparr>inner_html = [\<lparr>line = '''', indent = Indent\<rparr>,
                                           \<lparr>line = ''x'', indent = Nothing\<rparr>],
                             buffer = ''''\<rparr>)) \<noteq>
   inner_html (newline False (OfIndent Nothing)
                 \<lparr>inner_html = [\<lparr>line = ''a'', indent = Indent\<rparr>], buffer = ''''\<rparr>) @
   inner_html \<lparr>inner_html = [\<lparr>line = '''', indent = Indent\<rparr>, \<lparr>line = ''x'', indent = Nothing\<rparr>],
               buffer = ''''\<rparr>"
  by (simp add: iadd_def newline_def as_indent_def Indent_add_def from_int_def)

lemma iadd_Fragment_steps: "iadd self (Fragment other) = run_ops (append_steps other) self"
  by (simp add: iadd_def append_steps_def run_ops_append iadd_loop_steps)

lemma iadd_Fragment_splice_iff:
  "(inner_html (iadd self (Fragment other)) =
      inner_html (newline False (OfIndent Nothing) self) @ inner_html other) =
   list_all (\<lambda>l. line l \<noteq> []) (inner_html other)"
  using iadd_loop_splice_iff [OF newline_lines_nonempty]
  by (simp add: iadd_def)

subsection \<open>The object store\<close>

lemma set_buffer_simps:
  "line_objs (set_buffer t s st) = line_objs st"
  "next_line (set_buffer t s st) = next_line st"
  "next_html (set_buffer t s st) = next_html st"
  "x \<noteq> t \<Longrightarrow> html_objs (set_buffer t s st) x = html_objs st x"
  "obj_inner_html (html_objs (set_buffer t s st) x) = obj_inner_html (html_objs st x)"
  "obj_buffer (html_objs (set_buffer t s st) t) = s"
  "refs (set_buffer t s st) x = refs st x"
  by (simp_all add: set_buffer_def refs_def)

lemma apart_set_buffer: "apart (set_buffer t s st) t F = apart st t F"
  by (simp add: apart_def set_buffer_simps)

lemma tidy_set_buffer: "tidy (set_buffer t s st) t = tidy st t"
  by (simp add: tidy_def set_buffer_simps)

lemma doc_view_set_buffer: "doc_view (set_buffer t s st) t = (doc_view st t)\<lparr>buffer := s\<rparr>"
  by (simp add: doc_view_def set_buffer_simps)

lemma newline_s_frame:
  assumes "apart st t F"
  shows "(\<forall>p\<in>F. line_objs (newline_s f d t st) p = line_objs st p) \<and>
         (\<forall>x. x \<noteq> t \<longrightarrow> html_objs (newline_s f d t st) x = html_objs st x) \<and>
         apart (newline_s f d t st) t F \<and>
         next_html (newline_s f d t st) = next_html st"
proof -
  let ?xs = "obj_inner_html (html_objs st t)"
  have dis: "set ?xs \<inter> F = {}" and lt: "\<forall>p\<in>F. p < next_line st"
    using assms by (simp_all add: apart_def refs_def)
  show ?thesis
  proof (cases "\<not> f \<and> length (obj_buffer (html_objs st t)) = 0 \<and> length ?xs > 0")
    case True
    then have "?xs ! (length ?xs - Suc 0) \<in> set ?xs" by simp
    then have "?xs ! (length ?xs - Suc 0) \<notin> F" using dis by blast
    then show ?thesis using True dis lt
      by (auto simp: newline_s_def Let_def apart_def refs_def)
  next
    case False
    have "next_line st \<notin> F" using lt by auto
    then show ?thesis using False dis lt
      by (auto simp: newline_s_def Let_def apart_def refs_def alloc_line_def)
  qed
qed

lemma map_upd_distinct:
  "distinct xs \<Longrightarrow> i < length xs \<Longrightarrow> map (f(xs ! i := v)) xs = (map f xs)[i := v]"
  by (rule nth_equalityI) (auto simp: nth_list_update nth_eq_iff_index_eq)

lemma newline_s_refines:
  assumes "tidy st t"
  shows "doc_view (newline_s f d t st) t = newline f d (doc_view st t) \<and>
         tidy (newline_s f d t st) t"
proof -
  let ?xs = "obj_inner_html (html_objs st t)"
  have dist: "distinct ?xs" and lt: "\<forall>p\<in>set ?xs. p < next_line st"
    using assms by (simp_all add: tidy_def refs_def)
  show ?thesis
  proof (cases "\<not> f \<and> length (obj_buffer (html_objs st t)) = 0 \<and> length ?xs > 0")
    case True
    then have i: "length ?xs - Suc 0 < length ?xs" by simp
    show ?thesis using True dist lt
      by (simp add: newline_s_def newline_def doc_view_def Let_def tidy_def refs_def
            map_upd_distinct [OF dist i])
  next
    case False
    have "next_line st \<notin> set ?xs" using lt by auto
    moreover have "map ((line_objs st)(next_line st := v)) ?xs = map (line_objs st) ?xs" for v
      using lt by (auto)
    ultimately show ?thesis using False dist lt
      by (auto simp: newline_s_def newline_def doc_view_def Let_def tidy_def refs_def
            alloc_line_def less_Suc_eq)
  qed
qed

lemma iadd_loop_s_frame:
  assumes "t \<noteq> b" and "obj_inner_html (html_objs st b) = snap" and "apart st t F"
  shows "\<exists>st'. iadd_loop_s t b snap ps st = Inr st' \<and>
           (\<forall>p\<in>F. line_objs st' p = line_objs st p) \<and>
           (\<forall>x. x \<noteq> t \<longrightarrow> html_objs st' x = html_objs st x) \<and>
           apart st' t F \<and> next_html st' = next_html st"
  using assms
proof (induction ps arbitrary: st)
  case Nil
  then show ?case by simp
next
  case (Cons p ps)
  let ?st1 = "set_buffer t (line (line_objs st p)) st"
  let ?st2 = "newline_s False (OfIndent (indent (line_objs ?st1 p))) t ?st1"
  have a1: "apart ?st1 t F" using Cons.prems(3) by (simp add: apart_set_buffer)
  note fr = newline_s_frame [OF a1, of False "OfIndent (indent (line_objs ?st1 p))"]
  have b2: "obj_inner_html (html_objs ?st2 b) = snap"
    using fr Cons.prems(1,2) by (simp add: set_buffer_simps)
  from Cons.IH [OF Cons.prems(1) b2] fr
  obtain st' where st': "iadd_loop_s t b snap ps ?st2 = Inr st'"
    "\<forall>p\<in>F. line_objs st' p = line_objs ?st2 p"
    "\<forall>x. x \<noteq> t \<longrightarrow> html_objs st' x = html_objs ?st2 x"
    "apart st' t F" "next_html st' = next_html ?st2"
    by blast
  have "iadd_loop_s t b snap (p # ps) st = Inr st'"
    using st'(1) Cons.prems(2) by (simp add: Let_def)
  moreover have "\<forall>p\<in>F. line_objs st' p = line_objs st p"
    using st'(2) fr by (simp add: set_buffer_simps)
  moreover have "\<forall>x. x \<noteq> t \<longrightarrow> html_objs st' x = html_objs st x"
    using st'(3) fr by (simp add: set_buffer_simps)
  moreover have "next_html st' = next_html st"
    using st'(5) fr by (simp add: set_buffer_simps)
  ultimately show ?case using st'(4) by blast
qed

lemma iadd_loop_s_refines:
  assumes "t \<noteq> b" and "obj_inner_html (html_objs st b) = snap" and "apart st t F"
    and "tidy st t" and "set ps \<subseteq> F"
  shows "\<exists>st'. iadd_loop_s t b snap ps st = Inr st' \<and>
           doc_view st' t = iadd_loop (map (line_objs st) ps) (doc_view st t)"
  using assms
proof (induction ps arbitrary: st)
  case Nil
  then show ?case by simp
next
  case (Cons p ps)
  let ?st1 = "set_buffer t (line (line_objs st p)) st"
  let ?st2 = "newline_s False (OfIndent (indent (line_objs ?st1 p))) t ?st1"
  have a1: "apart ?st1 t F" using Cons.prems(3) by (simp add: apart_set_buffer)
  have t1: "tidy ?st1 t" using Cons.prems(4) by (simp add: tidy_set_buffer)
  note fr = newline_s_frame [OF a1, of False "OfIndent (indent (line_objs ?st1 p))"]
  note rf = newline_s_refines [OF t1, of False "OfIndent (indent (line_objs ?st1 p))"]
  have b2: "obj_inner_html (html_objs ?st2 b) = snap"
    using fr Cons.prems(1,2) by (simp add: set_buffer_simps)
  have ps: "set ps \<subseteq> F" using Cons.prems(5) by simp
  from Cons.IH [OF Cons.prems(1) b2 _ _ ps] fr rf
  obtain st' where st': "iadd_loop_s t b snap ps ?st2 = Inr st'"
    "doc_view st' t = iadd_loop (map (line_objs ?st2) ps) (doc_view ?st2 t)"
    by blast
  have m: "map (line_objs ?st2) ps = map (line_objs st) ps"
    using fr ps by (auto simp: set_buffer_simps)
  have v: "doc_view ?st2 t =
             newline False (OfIndent (indent (line_objs st p)))
               ((doc_view st t)\<lparr>buffer := line (line_objs st p)\<rparr>)"
    using rf by (simp add: doc_view_set_buffer set_buffer_simps)
  have "iadd_loop_s t b snap (p # ps) st = Inr st'"
    using st'(1) Cons.prems(2) by (simp add: Let_def)
  moreover have "doc_view st' t = iadd_loop (map (line_objs st) (p # ps)) (doc_view st t)"
    using st'(2) m v by simp
  ultimately show ?case by blast
qed

lemma iadd_s_frame:
  assumes "t \<noteq> b" and "apart st t F"
  shows "\<exists>st'. iadd_s t (DocArg b) st = Inr st' \<and>
           (\<forall>p\<in>F. line_objs st' p = line_objs st p) \<and>
           (\<forall>x. x \<noteq> t \<longrightarrow> html_objs st' x = html_objs st x) \<and>
           next_html st' = next_html st \<and>
           (tidy st t \<and> refs st b \<subseteq> F \<longrightarrow>
              doc_view st' t = iadd (doc_view st t) (Fragment (doc_view st b)))"
proof -
  let ?st1 = "newline_s False (OfIndent Nothing) t st"
  let ?snap = "obj_inner_html (html_objs ?st1 b)"
  note fr = newline_s_frame [OF assms(2), of False "OfIndent Nothing"]
  have a1: "apart ?st1 t F" using fr by simp
  have hb: "html_objs ?st1 b = html_objs st b" using fr assms(1) by simp
  from iadd_loop_s_frame [OF assms(1) refl a1, of ?snap]
  obtain st2 where st2: "iadd_loop_s t b ?snap ?snap ?st1 = Inr st2"
    "\<forall>p\<in>F. line_objs st2 p = line_objs ?st1 p"
    "\<forall>x. x \<noteq> t \<longrightarrow> html_objs st2 x = html_objs ?st1 x"
    "next_html st2 = next_html ?st1"
    by blast
  let ?st3 = "set_buffer t (obj_buffer (html_objs st2 b)) st2"
  have r: "iadd_s t (DocArg b) st = Inr ?st3"
    using st2(1) by (simp add: iadd_s_def Let_def)
  have 1: "\<forall>p\<in>F. line_objs ?st3 p = line_objs st p"
    using st2(2) fr by (simp add: set_buffer_simps)
  have 2: "\<forall>x. x \<noteq> t \<longrightarrow> html_objs ?st3 x = html_objs st x"
    using st2(3) fr by (simp add: set_buffer_simps)
  have 3: "next_html ?st3 = next_html st"
    using st2(4) fr by (simp add: set_buffer_simps)
  have 4: "doc_view ?st3 t = iadd (doc_view st t) (Fragment (doc_view st b))"
    if td: "tidy st t" and sub: "refs st b \<subseteq> F"
  proof -
    note rf = newline_s_refines [OF td, of False "OfIndent Nothing"]
    have t1: "tidy ?st1 t" using rf by simp
    have sn: "set ?snap \<subseteq> F" using sub hb by (simp add: refs_def)
    from iadd_loop_s_refines [OF assms(1) refl a1 t1 sn] st2(1)
    have v2: "doc_view st2 t = iadd_loop (map (line_objs ?st1) ?snap) (doc_view ?st1 t)"
      by auto
    have m: "map (line_objs ?st1) ?snap = inner_html (doc_view st b)"
      using fr sn hb by (auto simp: doc_view_def)
    have hb2: "html_objs st2 b = html_objs st b" using st2(3) assms(1) hb by simp
    show ?thesis
      using v2 m rf hb2
      by (simp add: doc_view_set_buffer iadd_def) (simp add: doc_view_def)
  qed
  show ?thesis using r 1 2 3 4 by blast
qed

lemma alloc_line_simps:
  "fst (alloc_line l st) = next_line st"
  "line_objs (snd (alloc_line l st)) = (line_objs st)(next_line st := l)"
  "next_line (snd (alloc_line l st)) = Suc (next_line st)"
  "html_objs (snd (alloc_line l st)) = html_objs st"
  "next_html (snd (alloc_line l st)) = next_html st"
  by (simp_all add: alloc_line_def)

lemma memo_ok_alloc:
  assumes "memo_ok base memo st" and "p < base" and "base \<le> next_line st"
  shows "memo_ok base ((p, next_line st) # memo) (snd (alloc_line (line_objs st p) st))"
  using assms by (auto simp: memo_ok_def alloc_line_simps)

lemma deepcopy_lines_copies:
  assumes "deepcopy_lines memo ps st = (qs, st')"
    and "\<forall>p\<in>set ps. p < base" and "base \<le> next_line st" and "memo_ok base memo st"
  shows "(\<forall>q\<in>set qs. base \<le> q \<and> q < next_line st') \<and>
         next_line st \<le> next_line st' \<and>
         (\<forall>x. x < next_line st \<longrightarrow> line_objs st' x = line_objs st x) \<and>
         map (line_objs st') qs = map (line_objs st) ps \<and>
         html_objs st' = html_objs st \<and> next_html st' = next_html st"
  using assms
proof (induction ps arbitrary: memo st qs st')
  case Nil
  then show ?case by simp
next
  case (Cons p ps)
  have pb: "p < base" and psb: "\<forall>p\<in>set ps. p < base" using Cons.prems(2) by simp_all
  show ?case
  proof (cases "map_of memo p")
    case (Some q)
    obtain qs0 where r: "deepcopy_lines memo ps st = (qs0, st')" and qs: "qs = q # qs0"
      using Cons.prems(1) Some by (auto split: prod.splits)
    note ih = Cons.IH [OF r psb Cons.prems(3,4)]
    have "(p, q) \<in> set memo" using Some by (rule map_of_SomeD)
    then have q: "base \<le> q" "q < next_line st" "line_objs st q = line_objs st p"
      using Cons.prems(4) by (auto simp: memo_ok_def)
    then have "q < next_line st'" "line_objs st' q = line_objs st p" using ih by auto
    then show ?thesis using ih qs q by simp
  next
    case None
    let ?st1 = "snd (alloc_line (line_objs st p) st)"
    let ?q = "next_line st"
    obtain qs0 where r: "deepcopy_lines ((p, ?q) # memo) ps ?st1 = (qs0, st')"
      and qs: "qs = ?q # qs0"
      using Cons.prems(1) None by (auto simp: alloc_line_def split: prod.splits)
    have m1: "memo_ok base ((p, ?q) # memo) ?st1"
      using Cons.prems(4) pb Cons.prems(3) by (rule memo_ok_alloc)
    have b1: "base \<le> next_line ?st1" using Cons.prems(3) by (simp add: alloc_line_simps)
    note ih = Cons.IH [OF r psb b1 m1]
    have lt: "\<forall>x. x < next_line st \<longrightarrow> line_objs st' x = line_objs st x"
      using ih by (auto simp: alloc_line_simps)
    have "line_objs st' ?q = line_objs st p"
      using ih by (auto simp: alloc_line_simps)
    moreover have "map (line_objs ?st1) ps = map (line_objs st) ps"
      using psb Cons.prems(3) by (auto simp: alloc_line_simps)
    moreover have "?q < next_line st'" using ih by (auto simp: alloc_line_simps)
    moreover have "next_line st \<le> next_line st'" using ih by (auto simp: alloc_line_simps)
    ultimately show ?thesis using ih qs lt Cons.prems(3)
      by (simp add: alloc_line_simps)
  qed
qed

lemma deepcopy_lines_distinct:
  assumes "deepcopy_lines memo ps st = (qs, st')"
    and "distinct ps" and "set ps \<inter> fst ` set memo = {}"
  shows "distinct qs \<and> (\<forall>q\<in>set qs. next_line st \<le> q)"
  using assms
proof (induction ps arbitrary: memo st qs st')
  case Nil
  then show ?case by simp
next
  case (Cons p ps)
  have "p \<notin> fst ` set memo" using Cons.prems(3) by auto
  then have None: "map_of memo p = None" by (simp add: map_of_eq_None_iff)
  let ?st1 = "snd (alloc_line (line_objs st p) st)"
  let ?q = "next_line st"
  obtain qs0 where r: "deepcopy_lines ((p, ?q) # memo) ps ?st1 = (qs0, st')"
    and qs: "qs = ?q # qs0"
    using Cons.prems(1) None by (auto simp: alloc_line_def split: prod.splits)
  have d: "distinct ps" and i: "set ps \<inter> fst ` set ((p, ?q) # memo) = {}"
    using Cons.prems(2,3) by auto
  note ih = Cons.IH [OF r d i]
  have "\<forall>q\<in>set qs0. Suc ?q \<le> q" using ih by (simp add: alloc_line_simps)
  then have "?q \<notin> set qs0" by auto
  then show ?case using ih qs by (auto simp: alloc_line_simps)
qed

lemma deepcopy_props:
  assumes "allocated st a" and "\<forall>p\<in>F. p < next_line st"
  shows "fst (deepcopy a st) = next_html st \<and>
         next_html (snd (deepcopy a st)) = Suc (next_html st) \<and>
         (\<forall>x. x \<noteq> next_html st \<longrightarrow> html_objs (snd (deepcopy a st)) x = html_objs st x) \<and>
         (\<forall>x. x < next_line st \<longrightarrow> line_objs (snd (deepcopy a st)) x = line_objs st x) \<and>
         doc_view (snd (deepcopy a st)) (fst (deepcopy a st)) = doc_view st a \<and>
         apart (snd (deepcopy a st)) (fst (deepcopy a st)) F \<and>
         (distinct (obj_inner_html (html_objs st a)) \<longrightarrow>
            tidy (snd (deepcopy a st)) (fst (deepcopy a st)))"
proof -
  let ?ps = "obj_inner_html (html_objs st a)"
  obtain qs st1 where r: "deepcopy_lines [] ?ps st = (qs, st1)"
    by (cases "deepcopy_lines [] ?ps st")
  have ps: "\<forall>p\<in>set ?ps. p < next_line st"
    using assms(1) by (simp add: allocated_def list_all_iff)
  have m: "memo_ok (next_line st) [] st" by (simp add: memo_ok_def)
  note cp = deepcopy_lines_copies [OF r ps order_refl m]
  let ?c = "next_html st"
  let ?st2 = "st1\<lparr>html_objs := (html_objs st1)
                  (?c := \<lparr>obj_inner_html = qs, obj_buffer = obj_buffer (html_objs st a)\<rparr>),
               next_html := Suc ?c\<rparr>"
  have d: "deepcopy a st = (?c, ?st2)"
    using r cp by (simp add: deepcopy_def)
  have 1: "doc_view ?st2 ?c = doc_view st a"
    using cp by (simp add: doc_view_def)
  have "set qs \<inter> F = {}" using cp assms(2) by fastforce
  moreover have "\<forall>p\<in>F. p < next_line st1" using cp assms(2) by fastforce
  ultimately have 2: "apart ?st2 ?c F" by (simp add: apart_def refs_def)
  have 3: "tidy ?st2 ?c" if "distinct ?ps"
    using deepcopy_lines_distinct [OF r that] cp by (simp add: tidy_def refs_def)
  show ?thesis using d cp 1 2 3 by simp
qed

text \<open>
  C7. \<open>a + b\<close> on two allocated documents returns, without raising, a new object \<open>c\<close>:
  the deep copy of \<open>a\<close>, which stands for the same document as \<open>a\<close>, after the mutating
  append of \<open>b\<close> to it. The objects \<open>a\<close> and \<open>b\<close> keep their deques and pending buffers, the
  line objects they refer to keep their fields, and \<open>to_raw_html\<close> on \<open>a\<close> and on \<open>b\<close>
  gives what it gave before. This holds also when \<open>a\<close> and \<open>b\<close> are the same object. When
  no line object occurs twice in the deque of \<open>a\<close>, the result stands for the append on
  documents as values.
\<close>

theorem add_leaves_operands:
  assumes "allocated st a" and "allocated st b"
  shows "\<exists>c st'. add a (DocArg b) st = Inr (c, st') \<and>
           c = fst (deepcopy a st) \<and> c \<noteq> a \<and> c \<noteq> b \<and>
           doc_view (snd (deepcopy a st)) c = doc_view st a \<and>
           iadd_s c (DocArg b) (snd (deepcopy a st)) = Inr st' \<and>
           html_objs st' a = html_objs st a \<and> html_objs st' b = html_objs st b \<and>
           doc_view st' a = doc_view st a \<and> doc_view st' b = doc_view st b \<and>
           to_raw_html_s n a st' = to_raw_html_s n a st \<and>
           to_raw_html_s n b st' = to_raw_html_s n b st \<and>
           (distinct (obj_inner_html (html_objs st a)) \<longrightarrow>
              doc_view st' c = iadd (doc_view st a) (Fragment (doc_view st b)))"
proof -
  let ?F = "refs st a \<union> refs st b"
  let ?c = "fst (deepcopy a st)"
  let ?st1 = "snd (deepcopy a st)"
  have F: "\<forall>p\<in>?F. p < next_line st"
    using assms by (auto simp: allocated_def list_all_iff refs_def)
  have ab: "a < next_html st" "b < next_html st" using assms by (simp_all add: allocated_def)
  note dc = deepcopy_props [OF assms(1) F]
  have c: "?c = next_html st" using dc by blast
  have ca: "?c \<noteq> a" and cb: "?c \<noteq> b" using c ab by simp_all
  have ap: "apart ?st1 ?c ?F" using dc by blast
  have vc1: "doc_view ?st1 ?c = doc_view st a" using dc by blast
  have td: "distinct (obj_inner_html (html_objs st a)) \<longrightarrow> tidy ?st1 ?c" using dc by blast
  have hx: "\<forall>x. x \<noteq> next_html st \<longrightarrow> html_objs ?st1 x = html_objs st x" using dc by blast
  have lx: "\<forall>x. x < next_line st \<longrightarrow> line_objs ?st1 x = line_objs st x" using dc by blast
  have h1: "html_objs ?st1 a = html_objs st a" "html_objs ?st1 b = html_objs st b"
    using hx ab by simp_all
  have l1: "\<forall>p\<in>?F. line_objs ?st1 p = line_objs st p" using lx F by simp
  from iadd_s_frame [OF cb ap]
  obtain st' where st': "iadd_s ?c (DocArg b) ?st1 = Inr st'"
    "\<forall>p\<in>?F. line_objs st' p = line_objs ?st1 p"
    "\<forall>x. x \<noteq> ?c \<longrightarrow> html_objs st' x = html_objs ?st1 x"
    "tidy ?st1 ?c \<and> refs ?st1 b \<subseteq> ?F \<longrightarrow>
       doc_view st' ?c = iadd (doc_view ?st1 ?c) (Fragment (doc_view ?st1 b))"
    by blast
  have r: "add a (DocArg b) st = Inr (?c, st')"
    using st'(1) by (cases "deepcopy a st") (simp add: add_def)
  have ha: "html_objs st' a = html_objs st a" using st'(3) ca h1 by simp
  have hb: "html_objs st' b = html_objs st b" using st'(3) cb h1 by simp
  have la: "\<forall>p\<in>?F. line_objs st' p = line_objs st p" using st'(2) l1 by simp
  have va: "doc_view st' a = doc_view st a"
    using ha la by (simp add: doc_view_def refs_def)
  have vb: "doc_view st' b = doc_view st b"
    using hb la by (simp add: doc_view_def refs_def)
  have vb1: "doc_view ?st1 b = doc_view st b"
    using h1 l1 by (simp add: doc_view_def refs_def)
  have rb: "refs ?st1 b \<subseteq> ?F" using h1 by (simp add: refs_def)
  have vc: "doc_view st' ?c = iadd (doc_view st a) (Fragment (doc_view st b))"
    if "distinct (obj_inner_html (html_objs st a))"
    using st'(4) td that rb vb1 vc1 by simp
  show ?thesis
    using r ca cb vc1 st'(1) ha hb va vb vc
    by (simp add: to_raw_html_s_def)
qed

theorem add_leaves_operands_witness:
  "\<exists>c st'. add 0 (DocArg 1) example_store = Inr (c, st') \<and>
     c \<noteq> 0 \<and> c \<noteq> 1 \<and>
     doc_view st' 0 = \<lparr>inner_html = [\<lparr>line = ''a'', indent = Indent\<rparr>], buffer = ''''\<rparr> \<and>
     doc_view st' 1 = \<lparr>inner_html = [\<lparr>line = ''x'', indent = Nothing\<rparr>], buffer = ''y''\<rparr> \<and>
     doc_view st' c =
       \<lparr>inner_html = [\<lparr>line = ''a'', indent = Indent\<rparr>, \<lparr>line = ''x'', indent = Nothing\<rparr>],
        buffer = ''y''\<rparr>"
proof -
  have a: "allocated example_store 0" and b: "allocated example_store 1"
    by (simp_all add: allocated_def example_store_def)
  have v0: "doc_view example_store 0 =
              \<lparr>inner_html = [\<lparr>line = ''a'', indent = Indent\<rparr>], buffer = ''''\<rparr>"
    and v1: "doc_view example_store 1 =
              \<lparr>inner_html = [\<lparr>line = ''x'', indent = Nothing\<rparr>], buffer = ''y''\<rparr>"
    by (simp_all add: doc_view_def example_store_def)
  have d: "distinct (obj_inner_html (html_objs example_store 0))"
    by (simp add: example_store_def)
  have i: "iadd \<lparr>inner_html = [\<lparr>line = ''a'', indent = Indent\<rparr>], buffer = ''''\<rparr>
             (Fragment \<lparr>inner_html = [\<lparr>line = ''x'', indent = Nothing\<rparr>], buffer = ''y''\<rparr>) =
           \<lparr>inner_html = [\<lparr>line = ''a'', indent = Indent\<rparr>, \<lparr>line = ''x'', indent = Nothing\<rparr>],
            buffer = ''y''\<rparr>"
    by (simp add: iadd_def newline_def as_indent_def Indent_add_def from_int_def)
  from add_leaves_operands [OF a b, of 2]
  obtain c st' where "add 0 (DocArg 1) example_store = Inr (c, st')" "c \<noteq> 0" "c \<noteq> 1"
    "doc_view st' 0 = doc_view example_store 0" "doc_view st' 1 = doc_view example_store 1"
    "distinct (obj_inner_html (html_objs example_store 0)) \<longrightarrow>
       doc_view st' c = iadd (doc_view example_store 0) (Fragment (doc_view example_store 1))"
    by blast
  then show ?thesis using d v0 v1 i by auto
qed

text \<open>
  Appending a document to itself is outside the frame above: the loop appends to the deque
  it iterates over, and the iterator raises.
\<close>

lemma iadd_s_same_object_raises:
  "iadd_s 0 (DocArg 0) example_store = Inl RuntimeError"
  by (simp add: iadd_s_def example_store_def newline_s_def set_buffer_def alloc_line_def
        as_indent_def Indent_add_def from_int_def Let_def)

subsection \<open>Appending a document object\<close>

text \<open>
  C6 (amended). Let \<open>self\<close> and \<open>other\<close> be two distinct allocated document objects that
  share no line object, with no line object twice in the deque of \<open>self\<close>. Then
  \<open>self += other\<close> returns without raising and leaves \<open>other\<close> as it was. On \<open>self\<close> it
  runs these steps: commit with delta \<open>Nothing\<close>; for each committed line of \<open>other\<close> in
  order, set the pending buffer to its text and commit with its delta; set the pending
  buffer to the pending text of \<open>other\<close>. The pending buffer of the result is that of
  \<open>other\<close>. The committed lines of the result are those of \<open>self\<close> after the first commit
  followed by those of \<open>other\<close> exactly when every committed line of \<open>other\<close> has a text
  that is not empty.
\<close>

theorem append_document_steps:
  assumes "self \<noteq> other"
    and "allocated st self" and "allocated st other"
    and "distinct (obj_inner_html (html_objs st self))"
    and "refs st self \<inter> refs st other = {}"
  shows "\<exists>st'. iadd_s self (DocArg other) st = Inr st' \<and>
           doc_view st' other = doc_view st other \<and>
           doc_view st' self = iadd (doc_view st self) (Fragment (doc_view st other)) \<and>
           doc_view st' self = run_ops (append_steps (doc_view st other)) (doc_view st self) \<and>
           buffer (doc_view st' self) = buffer (doc_view st other) \<and>
           (inner_html (doc_view st' self) =
              inner_html (newline False (OfIndent Nothing) (doc_view st self)) @
              inner_html (doc_view st other)) =
           list_all (\<lambda>l. line l \<noteq> []) (inner_html (doc_view st other))"
proof -
  let ?F = "refs st other"
  have F: "\<forall>p\<in>?F. p < next_line st"
    using assms(3) by (simp add: allocated_def list_all_iff refs_def)
  have ap: "apart st self ?F" using assms(5) F by (simp add: apart_def)
  have td: "tidy st self"
    using assms(2,4) by (simp add: tidy_def allocated_def list_all_iff refs_def)
  from iadd_s_frame [OF assms(1) ap]
  obtain st' where st': "iadd_s self (DocArg other) st = Inr st'"
    "\<forall>p\<in>?F. line_objs st' p = line_objs st p"
    "\<forall>x. x \<noteq> self \<longrightarrow> html_objs st' x = html_objs st x"
    "tidy st self \<and> refs st other \<subseteq> ?F \<longrightarrow>
       doc_view st' self = iadd (doc_view st self) (Fragment (doc_view st other))"
    by blast
  have ho: "html_objs st' other = html_objs st other" using st'(3) assms(1) by simp
  have vo: "doc_view st' other = doc_view st other"
    using ho st'(2) by (simp add: doc_view_def refs_def)
  have vs: "doc_view st' self = iadd (doc_view st self) (Fragment (doc_view st other))"
    using st'(4) td by simp
  have b: "buffer (doc_view st' self) = buffer (doc_view st other)"
    by (simp add: vs iadd_def)
  show ?thesis
    using st'(1) vo vs b iadd_Fragment_steps [of "doc_view st self" "doc_view st other"]
      iadd_Fragment_splice_iff [of "doc_view st self" "doc_view st other"]
    by simp
qed

theorem append_document_steps_witness:
  "\<exists>st'. iadd_s 0 (DocArg 1) example_store = Inr st' \<and>
     doc_view st' 1 = \<lparr>inner_html = [\<lparr>line = ''x'', indent = Nothing\<rparr>], buffer = ''y''\<rparr> \<and>
     doc_view st' 0 =
       \<lparr>inner_html = [\<lparr>line = ''a'', indent = Indent\<rparr>, \<lparr>line = ''x'', indent = Nothing\<rparr>],
        buffer = ''y''\<rparr>"
proof -
  have n: "(0::nat) \<noteq> 1" by simp
  have a: "allocated example_store 0" and b: "allocated example_store 1"
    by (simp_all add: allocated_def example_store_def)
  have d: "distinct (obj_inner_html (html_objs example_store 0))"
    by (simp add: example_store_def)
  have i: "refs example_store 0 \<inter> refs example_store 1 = {}"
    by (simp add: refs_def example_store_def)
  have v0: "doc_view example_store 0 =
              \<lparr>inner_html = [\<lparr>line = ''a'', indent = Indent\<rparr>], buffer = ''''\<rparr>"
    and v1: "doc_view example_store 1 =
              \<lparr>inner_html = [\<lparr>line = ''x'', indent = Nothing\<rparr>], buffer = ''y''\<rparr>"
    by (simp_all add: doc_view_def example_store_def)
  have r: "run_ops (append_steps \<lparr>inner_html = [\<lparr>line = ''x'', indent = Nothing\<rparr>], buffer = ''y''\<rparr>)
             \<lparr>inner_html = [\<lparr>line = ''a'', indent = Indent\<rparr>], buffer = ''''\<rparr> =
           \<lparr>inner_html = [\<lparr>line = ''a'', indent = Indent\<rparr>, \<lparr>line = ''x'', indent = Nothing\<rparr>],
            buffer = ''y''\<rparr>"
    by (simp add: append_steps_def newline_def as_indent_def Indent_add_def from_int_def)
  from append_document_steps [OF n a b d i]
  obtain st' where "iadd_s 0 (DocArg 1) example_store = Inr st'"
    "doc_view st' 1 = doc_view example_store 1"
    "doc_view st' 0 = run_ops (append_steps (doc_view example_store 1)) (doc_view example_store 0)"
    by blast
  then show ?thesis using v0 v1 r by auto
qed

end
